theory Spec2Isabelle
  imports Main "HOL-Library.Sublist" "HOL-Library.AList"
begin

section \<open>The exporter script \<^verbatim>\<open>ball-tracking/scripts/export_model.py\<close>\<close>

text \<open>
  The script loads a model through an external framework, asks it to export the model,
  and then relocates the directory the framework wrote: remove the destination if it
  exists, create the destination's parent, move, sum the file sizes, print.

  The file system is modelled as a tree; paths are resolved the way the kernel does
  (component by component, following symbolic links, \<open>..\<close> stepping to the parent
  directory). Permissions, devices and disk space are not modelled: every operation
  fails only for the reasons the tree itself gives.
\<close>

subsection \<open>File-system tree\<close>

datatype node =
    File nat                          \<comment> \<open>regular file with its \<open>st_size\<close>\<close>
  | Dir "(string \<times> node) list"         \<comment> \<open>directory entries, looked up by name\<close>
  | Symlink bool "string list"        \<comment> \<open>link target: absolute flag and components\<close>

fun is_Dir :: "node \<Rightarrow> bool" where
  "is_Dir (Dir es) = True"
| "is_Dir _ = False"

text \<open>A location is a list of names from the root: no \<open>..\<close>, no link is followed.\<close>

fun node_at :: "node \<Rightarrow> string list \<Rightarrow> node option" where
  "node_at r [] = Some r"
| "node_at (Dir es) (c # cs) = (case map_of es c of None \<Rightarrow> None | Some x \<Rightarrow> node_at x cs)"
| "node_at (File n) (c # cs) = None"
| "node_at (Symlink a t) (c # cs) = None"

text \<open>
  \<open>put_at loc v r\<close> is the tree \<open>r\<close> with the entry at \<open>loc\<close> set to \<open>v\<close>
  (\<open>None\<close> removes it). The directory holding the entry must exist; otherwise the tree
  is returned unchanged.
\<close>

fun put_at :: "string list \<Rightarrow> node option \<Rightarrow> node \<Rightarrow> node" where
  "put_at [] v r = (case v of Some n \<Rightarrow> n | None \<Rightarrow> r)"
| "put_at (c # cs) v (Dir es) =
     (if cs = [] then
        Dir (case v of None \<Rightarrow> AList.delete c es | Some n \<Rightarrow> AList.update c n es)
      else (case map_of es c of
              None \<Rightarrow> Dir es
            | Some x \<Rightarrow> Dir (AList.update c (put_at cs v x) es)))"
| "put_at (c # cs) v (File n) = File n"
| "put_at (c # cs) v (Symlink a t) = Symlink a t"

subsection \<open>Paths (\<^verbatim>\<open>pathlib.Path\<close> on POSIX)\<close>

record path =
  absolute :: bool
  double_slash :: bool        \<comment> \<open>the root is written \<^verbatim>\<open>//\<close>\<close>
  parts :: "string list"

text \<open>\<^verbatim>\<open>s.split('/')\<close>\<close>

fun split_sep :: "string \<Rightarrow> string list" where
  "split_sep [] = [[]]"
| "split_sep (c # cs) =
     (if c = CHR ''/'' then [] # split_sep cs
      else (case split_sep cs of [] \<Rightarrow> [[c]] | x # xs \<Rightarrow> (c # x) # xs))"

text \<open>
  \<^verbatim>\<open>Path(s)\<close>: a leading slash makes the path absolute, empty components and \<open>.\<close>
  are dropped, \<open>..\<close> is kept. A string that begins with exactly two slashes keeps
  them as its root (\<^verbatim>\<open>str(Path("//tmp/m"))\<close> is \<^verbatim>\<open>//tmp/m\<close>); three or more are one.
  Linux resolves both roots alike, so the flag matters only where the path is printed
  or compared as a string.
\<close>

definition two_slashes :: "string \<Rightarrow> bool" where
  "two_slashes s =
     (case s of
        a # b # rest \<Rightarrow>
          a = CHR ''/'' \<and> b = CHR ''/'' \<and> (case rest of [] \<Rightarrow> True | c # cs \<Rightarrow> c \<noteq> CHR ''/'')
      | _ \<Rightarrow> False)"

definition Path :: "string \<Rightarrow> path" where
  "Path s = \<lparr>absolute = (case s of [] \<Rightarrow> False | c # cs \<Rightarrow> c = CHR ''/''),
            double_slash = two_slashes s,
            parts = filter (\<lambda>c. c \<noteq> [] \<and> c \<noteq> ''.'') (split_sep s)\<rparr>"

text \<open>\<^verbatim>\<open>p.parent\<close> is lexical: it drops the last component, and \<open>.\<close> and \<open>/\<close> are their own parent.\<close>

definition parent :: "path \<Rightarrow> path" where
  "parent p = p\<lparr>parts := butlast (parts p)\<rparr>"

definition joinpath :: "path \<Rightarrow> string \<Rightarrow> path" where
  "joinpath p n = p\<lparr>parts := parts p @ [n]\<rparr>"

fun intercalate :: "string \<Rightarrow> string list \<Rightarrow> string" where
  "intercalate s [] = []"
| "intercalate s [x] = x"
| "intercalate s (x # y # ys) = x @ s @ intercalate s (y # ys)"

text \<open>\<^verbatim>\<open>str(p)\<close>\<close>

definition str_path :: "path \<Rightarrow> string" where
  "str_path p =
     (if absolute p then
        (if double_slash p then ''//'' else ''/'') @ intercalate ''/'' (parts p)
      else if parts p = [] then ''.'' else intercalate ''/'' (parts p))"

subsection \<open>Path resolution\<close>

datatype errno = ENOENT | ENOTDIR | ELOOP | EEXIST | EINVAL | ENOTEMPTY | EISDIR | EBUSY

record world =
  fs_root :: node
  cwd :: "string list"        \<comment> \<open>location of the process's working directory\<close>

text \<open>Linux follows at most 40 symbolic links in one resolution.\<close>

definition MAXSYMLINKS :: nat where
  "MAXSYMLINKS = 40"

text \<open>
  \<open>walk r fl k cur ps\<close> resolves the components \<open>ps\<close> from the directory at location
  \<open>cur\<close>, with \<open>k\<close> link traversals left. A link in the last position is followed
  only if \<open>fl\<close>. The result is the location reached and the traversals left.
\<close>

function walk :: "node \<Rightarrow> bool \<Rightarrow> nat \<Rightarrow> string list \<Rightarrow> string list \<Rightarrow> errno + (string list \<times> nat)" where
  "walk r fl k cur [] = Inr (cur, k)"
| "walk r fl k cur (c # cs) =
     (if c = ''..'' then walk r fl k (butlast cur) cs
      else (case node_at r (cur @ [c]) of
              None \<Rightarrow> Inl ENOENT
            | Some (File n) \<Rightarrow> if cs = [] then Inr (cur @ [c], k) else Inl ENOTDIR
            | Some (Dir es) \<Rightarrow> walk r fl k (cur @ [c]) cs
            | Some (Symlink a t) \<Rightarrow>
                if cs = [] \<and> \<not> fl then Inr (cur @ [c], k)
                else (case k of
                        0 \<Rightarrow> Inl ELOOP
                      | Suc k' \<Rightarrow> walk r fl k' (if a then [] else cur) (t @ cs))))"
  by pat_completeness auto
termination
  by (relation "measures [\<lambda>(r, fl, k, cur, ps). k, \<lambda>(r, fl, k, cur, ps). length ps]") auto

text \<open>
  A relative path starts at the working directory, an absolute one at the root. The
  working directory is a location: once the directory there has been removed, every
  relative path fails with \<open>ENOENT\<close>. (Linux fails a name looked up in a removed
  working directory in the same way, but still resolves \<open>.\<close> and a leading \<open>..\<close>
  there; the model does not follow it in that, which concerns relative paths that
  begin with \<open>..\<close> or are \<open>.\<close>, after the working directory was deleted.)
\<close>

definition start_of :: "world \<Rightarrow> path \<Rightarrow> string list" where
  "start_of w p = (if absolute p then [] else cwd w)"

definition resolve :: "world \<Rightarrow> bool \<Rightarrow> path \<Rightarrow> errno + string list" where
  "resolve w fl p =
     (case node_at (fs_root w) (start_of w p) of
        Some (Dir es) \<Rightarrow>
          (case walk (fs_root w) fl MAXSYMLINKS (start_of w p) (parts p) of
             Inl e \<Rightarrow> Inl e
           | Inr (loc, k) \<Rightarrow> Inr loc)
      | _ \<Rightarrow> Inl ENOENT)"

text \<open>\<^verbatim>\<open>os.stat\<close> (follows a final link) and \<^verbatim>\<open>os.lstat\<close> (does not).\<close>

definition stat_node :: "world \<Rightarrow> bool \<Rightarrow> path \<Rightarrow> errno + node" where
  "stat_node w fl p =
     (case resolve w fl p of
        Inl e \<Rightarrow> Inl e
      | Inr loc \<Rightarrow> (case node_at (fs_root w) loc of None \<Rightarrow> Inl ENOENT | Some x \<Rightarrow> Inr x))"

text \<open>\<^verbatim>\<open>Path.exists\<close>, \<^verbatim>\<open>Path.is_dir\<close>, \<^verbatim>\<open>Path.is_file\<close>: all follow links.\<close>

definition path_exists :: "world \<Rightarrow> path \<Rightarrow> bool" where
  "path_exists w p = (case stat_node w True p of Inl e \<Rightarrow> False | Inr x \<Rightarrow> True)"

definition is_dir :: "world \<Rightarrow> path \<Rightarrow> bool" where
  "is_dir w p = (case stat_node w True p of Inr (Dir es) \<Rightarrow> True | _ \<Rightarrow> False)"

definition is_file :: "world \<Rightarrow> path \<Rightarrow> bool" where
  "is_file w p = (case stat_node w True p of Inr (File n) \<Rightarrow> True | _ \<Rightarrow> False)"

text \<open>\<^verbatim>\<open>os.path.islink\<close>, \<^verbatim>\<open>os.path.lexists\<close>\<close>

definition islink :: "world \<Rightarrow> path \<Rightarrow> bool" where
  "islink w p = (case stat_node w False p of Inr (Symlink a t) \<Rightarrow> True | _ \<Rightarrow> False)"

definition lexists :: "world \<Rightarrow> path \<Rightarrow> bool" where
  "lexists w p = (case stat_node w False p of Inl e \<Rightarrow> False | Inr x \<Rightarrow> True)"

text \<open>\<^verbatim>\<open>f.stat().st_size\<close> of a path that \<open>is_file\<close>.\<close>

definition st_size :: "world \<Rightarrow> path \<Rightarrow> nat" where
  "st_size w p = (case stat_node w True p of Inr (File n) \<Rightarrow> n | _ \<Rightarrow> 0)"

text \<open>
  The directory and name an entry-level system call (\<open>mkdir\<close>, \<open>rmdir\<close>, \<open>rename\<close>,
  \<open>unlink\<close>, \<open>symlink\<close>) works on: everything but the last component is resolved to a
  directory. A path with no last name (\<open>.\<close>, \<open>/\<close>, or ending in \<open>..\<close>) has none.
\<close>

definition resolve_entry :: "world \<Rightarrow> path \<Rightarrow> errno + (string list \<times> string)" where
  "resolve_entry w p =
     (if parts p = [] \<or> last (parts p) = ''..'' then Inl EINVAL
      else (case stat_node w True (parent p) of
              Inl e \<Rightarrow> Inl e
            | Inr (Dir es) \<Rightarrow>
                (case resolve w True (parent p) of
                   Inl e \<Rightarrow> Inl e
                 | Inr d \<Rightarrow> Inr (d, last (parts p)))
            | Inr _ \<Rightarrow> Inl ENOTDIR))"

subsection \<open>System calls\<close>

text \<open>Every effectful operation returns its outcome and the world it leaves.\<close>

definition set_root :: "world \<Rightarrow> node \<Rightarrow> world" where
  "set_root w r = w\<lparr>fs_root := r\<rparr>"

text \<open>\<^verbatim>\<open>os.mkdir(p)\<close>\<close>

definition os_mkdir :: "world \<Rightarrow> path \<Rightarrow> errno + world" where
  "os_mkdir w p =
     (if parts p = [] \<or> last (parts p) = ''..'' then
        (case resolve w True p of Inl e \<Rightarrow> Inl e | Inr loc \<Rightarrow> Inl EEXIST)
      else (case resolve_entry w p of
              Inl e \<Rightarrow> Inl e
            | Inr (d, n) \<Rightarrow>
                (case node_at (fs_root w) (d @ [n]) of
                   Some x \<Rightarrow> Inl EEXIST
                 | None \<Rightarrow> Inr (set_root w (put_at (d @ [n]) (Some (Dir [])) (fs_root w))))))"

text \<open>\<^verbatim>\<open>os.rmdir(p)\<close>\<close>

definition os_rmdir :: "world \<Rightarrow> path \<Rightarrow> errno + world" where
  "os_rmdir w p =
     (if parts p = [] then Inl (if absolute p then EBUSY else EINVAL)
      else if last (parts p) = ''..'' then
        (case resolve w True p of Inl e \<Rightarrow> Inl e | Inr loc \<Rightarrow> Inl ENOTEMPTY)
      else (case resolve_entry w p of
              Inl e \<Rightarrow> Inl e
            | Inr (d, n) \<Rightarrow>
                (case node_at (fs_root w) (d @ [n]) of
                   None \<Rightarrow> Inl ENOENT
                 | Some (Dir es) \<Rightarrow>
                     if es = [] then Inr (set_root w (put_at (d @ [n]) None (fs_root w)))
                     else Inl ENOTEMPTY
                 | Some _ \<Rightarrow> Inl ENOTDIR)))"

text \<open>\<^verbatim>\<open>os.unlink(p)\<close>\<close>

definition os_unlink :: "world \<Rightarrow> path \<Rightarrow> errno + world" where
  "os_unlink w p =
     (case resolve_entry w p of
        Inl e \<Rightarrow> Inl e
      | Inr (d, n) \<Rightarrow>
          (case node_at (fs_root w) (d @ [n]) of
             None \<Rightarrow> Inl ENOENT
           | Some (Dir es) \<Rightarrow> Inl EISDIR
           | Some _ \<Rightarrow> Inr (set_root w (put_at (d @ [n]) None (fs_root w)))))"

text \<open>\<^verbatim>\<open>os.symlink(target, p)\<close>, the target given as \<open>os.readlink\<close> returned it.\<close>

definition os_symlink :: "world \<Rightarrow> node \<Rightarrow> path \<Rightarrow> errno + world" where
  "os_symlink w link p =
     (case resolve_entry w p of
        Inl e \<Rightarrow> Inl (if parts p = [] \<or> last (parts p) = ''..'' then EEXIST else e)
      | Inr (d, n) \<Rightarrow>
          (case node_at (fs_root w) (d @ [n]) of
             Some x \<Rightarrow> Inl EEXIST
           | None \<Rightarrow> Inr (set_root w (put_at (d @ [n]) (Some link) (fs_root w)))))"

text \<open>
  \<^verbatim>\<open>os.rename(src, dst)\<close> within one file system: neither name is followed if it is
  a link; a directory replaces only an empty directory, anything else replaces only a
  non-directory; a directory cannot be moved below itself.
\<close>

definition os_rename :: "world \<Rightarrow> path \<Rightarrow> path \<Rightarrow> errno + world" where
  "os_rename w src dst =
     (case resolve_entry w src of
        Inl e \<Rightarrow> Inl e
      | Inr (sd, sn) \<Rightarrow>
          (case node_at (fs_root w) (sd @ [sn]) of
             None \<Rightarrow> Inl ENOENT
           | Some x \<Rightarrow>
               (case resolve_entry w dst of
                  Inl e \<Rightarrow> Inl e
                | Inr (dd, dn) \<Rightarrow>
                    (let s = sd @ [sn]; d = dd @ [dn];
                         moved = set_root w (put_at d (Some x) (put_at s None (fs_root w)))
                     in if s = d then Inr w
                        else if is_Dir x \<and> prefix s d then Inl EINVAL
                        else (case node_at (fs_root w) d of
                                None \<Rightarrow> Inr moved
                              | Some (Dir es) \<Rightarrow>
                                  if \<not> is_Dir x then Inl EISDIR
                                  else if es \<noteq> [] then Inl ENOTEMPTY
                                  else Inr moved
                              | Some y \<Rightarrow> if is_Dir x then Inl ENOTDIR else Inr moved)))))"

subsection \<open>Library calls the script makes\<close>

datatype error =
    OSError errno                \<comment> \<open>\<^verbatim>\<open>OSError\<close> and its subclasses, by \<open>errno\<close>\<close>
  | RmtreeOnSymlink              \<comment> \<open>\<^verbatim>\<open>OSError("Cannot call rmtree on a symbolic link")\<close>\<close>
  | ShutilError                  \<comment> \<open>\<^verbatim>\<open>shutil.Error\<close>\<close>
  | FrameworkError string        \<comment> \<open>whatever the external framework raises\<close>

text \<open>
  \<^verbatim>\<open>shutil.rmtree(p)\<close>: the path itself must be a real directory (a link is refused, a
  file is not a directory); its contents are deleted without following links, then the
  directory is removed with \<open>rmdir\<close>. The contents stay deleted if the \<open>rmdir\<close> fails.
\<close>

definition rmtree :: "world \<Rightarrow> path \<Rightarrow> (error + unit) \<times> world" where
  "rmtree w p =
     (case stat_node w False p of
        Inl e \<Rightarrow> (Inl (OSError e), w)
      | Inr (Symlink a t) \<Rightarrow>
          (case resolve w True p of
             Inl e \<Rightarrow> (Inl (OSError e), w)
           | Inr loc \<Rightarrow> (Inl RmtreeOnSymlink, w))
      | Inr (File n) \<Rightarrow> (Inl (OSError ENOTDIR), w)
      | Inr (Dir es) \<Rightarrow>
          (case resolve w False p of
             Inl e \<Rightarrow> (Inl (OSError e), w)
           | Inr loc \<Rightarrow>
               (let w1 = set_root w (put_at loc (Some (Dir [])) (fs_root w))
                in case os_rmdir w1 p of
                     Inl e \<Rightarrow> (Inl (OSError e), w1)
                   | Inr w2 \<Rightarrow> (Inr (), w2))))"

text \<open>\<^verbatim>\<open>p.mkdir(parents=False, exist_ok=True)\<close>\<close>

definition mkdir_leaf :: "world \<Rightarrow> path \<Rightarrow> (error + unit) \<times> world" where
  "mkdir_leaf w p =
     (case os_mkdir w p of
        Inr w' \<Rightarrow> (Inr (), w')
      | Inl e \<Rightarrow>
          if e = ENOENT then (Inl (OSError ENOENT), w)
          else if is_dir w p then (Inr (), w)
          else (Inl (OSError e), w))"

text \<open>
  \<^verbatim>\<open>p.mkdir(parents=True, exist_ok=True)\<close>: on \<^verbatim>\<open>FileNotFoundError\<close> the parent is
  created first (recursively) and the directory then; any other error is forgiven if
  the path is a directory by now.
\<close>

function mkdir :: "world \<Rightarrow> path \<Rightarrow> (error + unit) \<times> world" where
  "mkdir w p =
     (case os_mkdir w p of
        Inr w' \<Rightarrow> (Inr (), w')
      | Inl e \<Rightarrow>
          if e = ENOENT then
            (if parts p = [] then (Inl (OSError ENOENT), w)
             else (case mkdir w (parent p) of
                     (Inl e', w1) \<Rightarrow> (Inl e', w1)
                   | (Inr u, w1) \<Rightarrow> mkdir_leaf w1 p))
          else if is_dir w p then (Inr (), w)
          else (Inl (OSError e), w))"
  by pat_completeness auto
termination
  by (relation "measure (\<lambda>(w, p). length (parts p))") (auto simp: parent_def)

text \<open>\<^verbatim>\<open>os.path.samefile\<close>, with \<^verbatim>\<open>OSError\<close> read as \<open>False\<close> the way \<^verbatim>\<open>shutil._samefile\<close> does.\<close>

definition samefile :: "world \<Rightarrow> path \<Rightarrow> path \<Rightarrow> bool" where
  "samefile w p q =
     (case resolve w True p of
        Inl e \<Rightarrow> False
      | Inr a \<Rightarrow> (case resolve w True q of Inl e \<Rightarrow> False | Inr b \<Rightarrow> a = b))"

text \<open>\<^verbatim>\<open>os.path.abspath\<close>: joins with the working directory and collapses \<open>..\<close> lexically.\<close>

definition normpath :: "string list \<Rightarrow> string list" where
  "normpath ps = foldl (\<lambda>acc c. if c = ''..'' then butlast acc else acc @ [c]) [] ps"

definition abspath :: "world \<Rightarrow> path \<Rightarrow> string list" where
  "abspath w p = normpath (start_of w p @ parts p)"

text \<open>
  \<^verbatim>\<open>shutil._destinsrc\<close>: whether the absolute path string of \<open>dst\<close>, with a slash
  appended, begins with that of \<open>src\<close>, with a slash appended. \<^verbatim>\<open>abspath\<close> keeps a
  root of two slashes, so the strings agree on a beginning only if they have the same
  root, or \<open>src\<close> is the plain root \<^verbatim>\<open>/\<close>.
\<close>

definition root_two :: "path \<Rightarrow> bool" where
  "root_two p = (absolute p \<and> double_slash p)"

definition destinsrc :: "world \<Rightarrow> path \<Rightarrow> path \<Rightarrow> bool" where
  "destinsrc w src dst =
     (prefix (abspath w src) (abspath w dst)
      \<and> (root_two src = root_two dst \<or> (abspath w src = [] \<and> \<not> root_two src)))"

text \<open>\<^verbatim>\<open>shutil._basename\<close> of a path, and \<^verbatim>\<open>os.path.join(dst, name)\<close>.\<close>

definition basename :: "path \<Rightarrow> string" where
  "basename p = (if parts p = [] then (if absolute p then [] else ''.'') else last (parts p))"

definition join_name :: "path \<Rightarrow> string \<Rightarrow> path" where
  "join_name p n = (if n = [] \<or> n = ''.'' then p else joinpath p n)"

text \<open>
  What the script calls but does not define. \<open>YOLO\<close> and \<open>model_export\<close> are the
  framework's constructor and \<^verbatim>\<open>model.export(format=...)\<close>; they may do anything to the
  world. \<open>copy_then_delete\<close> is the part of \<^verbatim>\<open>shutil.move\<close> that copies a directory
  tree and deletes the original when the rename is refused; it is left open.
\<close>

record 'm externals =
  YOLO :: "string \<Rightarrow> world \<Rightarrow> (error + 'm) \<times> world"
  model_export :: "'m \<Rightarrow> string \<Rightarrow> world \<Rightarrow> (error + string) \<times> world"
  copy_then_delete :: "path \<Rightarrow> path \<Rightarrow> world \<Rightarrow> (error + unit) \<times> world"

text \<open>
  \<^verbatim>\<open>shutil.move(src, dst)\<close>. An existing directory \<open>dst\<close> receives \<open>src\<close> inside it,
  under \<open>src\<close>'s name, which must be free. The rename is tried first. When it is
  refused: a link is recreated and unlinked; a directory is refused if \<open>dst\<close> lies
  lexically inside it, fails if the target name is taken, and is otherwise handed to
  \<open>copy_then_delete\<close>; for anything else the copy fails for the reason the rename did.
\<close>

definition move :: "'m externals \<Rightarrow> world \<Rightarrow> path \<Rightarrow> path \<Rightarrow> (error + unit) \<times> world" where
  "move ext w src dst =
     (if is_dir w dst \<and> samefile w src dst \<and> \<not> islink w src then
        (case os_rename w src dst of
           Inl e \<Rightarrow> (Inl (OSError e), w)
         | Inr w' \<Rightarrow> (Inr (), w'))
      else
        (let real_dst = (if is_dir w dst then join_name dst (basename src) else dst)
         in if is_dir w dst \<and> path_exists w real_dst then (Inl ShutilError, w)
            else (case os_rename w src real_dst of
                    Inr w' \<Rightarrow> (Inr (), w')
                  | Inl e \<Rightarrow>
                      if islink w src then
                        (case stat_node w False src of
                           Inl e1 \<Rightarrow> (Inl (OSError e1), w)
                         | Inr link \<Rightarrow>
                             (case os_symlink w link real_dst of
                                Inl e2 \<Rightarrow> (Inl (OSError e2), w)
                              | Inr w1 \<Rightarrow>
                                  (case os_unlink w1 src of
                                     Inl e3 \<Rightarrow> (Inl (OSError e3), w1)
                                   | Inr w2 \<Rightarrow> (Inr (), w2))))
                      else if is_dir w src then
                        (if (\<not> absolute src \<or> \<not> absolute dst) \<and> \<not> path_exists w \<lparr>absolute = False, double_slash = False, parts = []\<rparr>
                           then (Inl (OSError ENOENT), w)
                         else if destinsrc w src dst then (Inl ShutilError, w)
                         else if lexists w real_dst then (Inl (OSError EEXIST), w)
                         else copy_then_delete ext src real_dst w)
                      else (Inl (OSError e), w))))"

text \<open>
  \<^verbatim>\<open>p.rglob("*")\<close>: every entry of \<open>p\<close> and of each real directory below it, as a path
  under \<open>p\<close>. A link to a directory is listed and not entered. The paths are listed
  depth first here; the script only sums over them.
\<close>

fun rglob_node :: "path \<Rightarrow> node \<Rightarrow> path list" where
  "rglob_node p (Dir es) =
     concat (map (\<lambda>(n, x). joinpath p n # rglob_node (joinpath p n) x) es)"
| "rglob_node p (File n) = []"
| "rglob_node p (Symlink a t) = []"

definition rglob :: "world \<Rightarrow> path \<Rightarrow> path list" where
  "rglob w p = (case stat_node w True p of Inr (Dir es) \<Rightarrow> rglob_node p (Dir es) | _ \<Rightarrow> [])"

text \<open>\<^verbatim>\<open>sum(f.stat().st_size for f in output_dir.rglob("*") if f.is_file())\<close>\<close>

definition total_size :: "world \<Rightarrow> path \<Rightarrow> nat" where
  "total_size w p = sum_list (map (st_size w) (filter (is_file w) (rglob w p)))"

subsection \<open>Printing\<close>

function show_nat :: "nat \<Rightarrow> string" where
  "show_nat n =
     (if n < 10 then [''0123456789'' ! n]
      else show_nat (n div 10) @ [''0123456789'' ! (n mod 10)])"
  by pat_completeness auto
termination
  by (relation "measure (\<lambda>n. n)") auto

text \<open>
  \<^verbatim>\<open>f"{total_size / 1024 / 1024:.1f}"\<close>. The two divisions by a power of two are exact in
  binary floating point for every total below \<open>2^53\<close>, and the format rounds the exact
  value to one decimal, ties to even; this is that rounding on the integers. From
  \<open>2^53\<close> bytes on the first division rounds the total to 53 bits (and near \<open>2^1034\<close>
  it raises \<^verbatim>\<open>OverflowError\<close>), which this function does not follow: \<open>float_exact\<close>
  is the range in which it is the program's output, and every statement about the
  printed total, or about a run that prints it, is made for totals in that range.
\<close>

definition float_exact :: "nat \<Rightarrow> bool" where
  "float_exact sz = (sz < 9007199254740992)"

definition mb_tenths :: "nat \<Rightarrow> nat" where
  "mb_tenths sz =
     (let q = (10 * sz) div 1048576; r = (10 * sz) mod 1048576
      in if 2 * r < 1048576 then q
         else if 2 * r > 1048576 then q + 1
         else if even q then q else q + 1)"

definition format_mb :: "nat \<Rightarrow> string" where
  "format_mb sz = show_nat (mb_tenths sz div 10) @ ''.'' @ show_nat (mb_tenths sz mod 10)"

subsection \<open>The script's function\<close>

text \<open>
  What a run does, in order: the lines it prints and the calls it makes that can change
  the world. An entry is recorded when the call is made, whether or not it then raises.
\<close>

datatype event =
    Print string
  | CallYOLO string
  | CallExport string
  | CallRmtree path
  | CallMkdir path
  | CallMove path path

text \<open>The spec's result entity. The function itself has no \<^verbatim>\<open>return\<close> statement.\<close>

record export_result =
  finalDirectory :: path
  totalBytes :: nat

record run =
  outcome :: "error + export_result option"   \<comment> \<open>the exception raised, or the value returned (\<^verbatim>\<open>None\<close>)\<close>
  final :: world
  trace :: "event list"

definition export_model :: "'m externals \<Rightarrow> string \<Rightarrow> path \<Rightarrow> world \<Rightarrow> run" where
  "export_model ext model_name output_dir w0 =
     (let t0 = [Print (''Loading '' @ model_name @ ''...''), CallYOLO (model_name @ ''.pt'')]
      in case YOLO ext (model_name @ ''.pt'') w0 of
           (Inl e, w1) \<Rightarrow> \<lparr>outcome = Inl e, final = w1, trace = t0\<rparr>
         | (Inr model, w1) \<Rightarrow>
      (let t1 = t0 @ [Print ''Exporting to TensorFlow.js format...'', CallExport ''tfjs'']
       in case model_export ext model ''tfjs'' w1 of
            (Inl e, w2) \<Rightarrow> \<lparr>outcome = Inl e, final = w2, trace = t1\<rparr>
          | (Inr exported, w2) \<Rightarrow>
      (let export_dir = Path (model_name @ ''_web_model'');
           t2 = t1 @ (if path_exists w2 output_dir then [CallRmtree output_dir] else [])
       in case (if path_exists w2 output_dir then rmtree w2 output_dir else (Inr (), w2)) of
            (Inl e, w3) \<Rightarrow> \<lparr>outcome = Inl e, final = w3, trace = t2\<rparr>
          | (Inr u3, w3) \<Rightarrow>
      (let t3 = t2 @ [CallMkdir (parent output_dir)]
       in case mkdir w3 (parent output_dir) of
            (Inl e, w4) \<Rightarrow> \<lparr>outcome = Inl e, final = w4, trace = t3\<rparr>
          | (Inr u4, w4) \<Rightarrow>
      (let t4 = t3 @ [CallMove export_dir output_dir]
       in case move ext w4 export_dir output_dir of
            (Inl e, w5) \<Rightarrow> \<lparr>outcome = Inl e, final = w5, trace = t4\<rparr>
          | (Inr u5, w5) \<Rightarrow>
      (let total_sz = total_size w5 output_dir
       in \<lparr>outcome = Inr None, final = w5,
           trace = t4 @ [Print (''Model exported to '' @ str_path output_dir),
                         Print (''Total size: '' @ format_mb total_sz @ '' MB'')]\<rparr>))))))"

subsection \<open>A stub framework and example worlds\<close>

text \<open>
  A framework for examples: loading fails for the weights of \<open>not-a-real-model\<close> and
  otherwise yields the weights' file name; exporting writes a fixed tree to
  \<open><stem>_web_model\<close> in the working directory and touches nothing else. Its
  \<open>copy_then_delete\<close> always fails.
\<close>

definition stub_export_loc :: "world \<Rightarrow> string \<Rightarrow> string list" where
  "stub_export_loc w m = cwd w @ [take (length m - 3) m @ ''_web_model'']"

definition stub :: "node \<Rightarrow> string externals" where
  "stub tree =
     \<lparr>YOLO = (\<lambda>s w. if s = ''not-a-real-model.pt'' then (Inl (FrameworkError ''not found''), w)
                     else (Inr s, w)),
      model_export = (\<lambda>m fmt w.
         (Inr (take (length m - 3) m @ ''_web_model''),
          set_root w (put_at (stub_export_loc w m) (Some tree) (fs_root w)))),
      copy_then_delete = (\<lambda>src dst w. (Inl (OSError EINVAL), w))\<rparr>"

text \<open>The spec's example: a two-file, 150-byte export, destination \<^verbatim>\<open>./out/model\<close>.\<close>

definition tree150 :: node where
  "tree150 = Dir [(''model.json'', File 100), (''group1-shard1of1.bin'', File 50)]"

definition out_model :: path where
  "out_model = Path ''./out/model''"

definition empty_world :: world where
  "empty_world = \<lparr>fs_root = Dir [(''work'', Dir [])], cwd = [''work'']\<rparr>"

text \<open>A world in which the destination already holds something else.\<close>

definition stale_world :: world where
  "stale_world =
     \<lparr>fs_root = Dir [(''work'', Dir [(''out'', Dir [(''model'', Dir [(''old.bin'', File 7)])])])],
      cwd = [''work'']\<rparr>"

subsection \<open>Vocabulary for the properties\<close>

text \<open>The trace of a run up to each stage; \<open>ex\<close> says whether the destination existed.\<close>

definition t_load :: "string \<Rightarrow> event list" where
  "t_load name = [Print (''Loading '' @ name @ ''...''), CallYOLO (name @ ''.pt'')]"

definition t_export :: "string \<Rightarrow> event list" where
  "t_export name = t_load name @ [Print ''Exporting to TensorFlow.js format...'', CallExport ''tfjs'']"

definition t_rmtree :: "string \<Rightarrow> path \<Rightarrow> bool \<Rightarrow> event list" where
  "t_rmtree name out ex = t_export name @ (if ex then [CallRmtree out] else [])"

definition t_mkdir :: "string \<Rightarrow> path \<Rightarrow> bool \<Rightarrow> event list" where
  "t_mkdir name out ex = t_rmtree name out ex @ [CallMkdir (parent out)]"

definition t_move :: "string \<Rightarrow> path \<Rightarrow> bool \<Rightarrow> event list" where
  "t_move name out ex = t_mkdir name out ex @ [CallMove (Path (name @ ''_web_model'')) out]"

fun is_load :: "event \<Rightarrow> bool" where
  "is_load (CallYOLO s) = True"
| "is_load e = False"

fun is_fs_call :: "event \<Rightarrow> bool" where
  "is_fs_call (CallRmtree p) = True"
| "is_fs_call (CallMkdir p) = True"
| "is_fs_call (CallMove p q) = True"
| "is_fs_call e = False"

fun is_move :: "event \<Rightarrow> bool" where
  "is_move (CallMove p q) = True"
| "is_move e = False"

text \<open>The worlds the two example runs pass through.\<close>

definition exported_150 :: "world \<Rightarrow> world" where
  "exported_150 w = set_root w (put_at (cwd w @ [''yolo26s_web_model'']) (Some tree150) (fs_root w))"

definition made_world :: world where
  "made_world = \<lparr>fs_root = Dir [(''work'', Dir [(''yolo26s_web_model'', tree150), (''out'', Dir [])])], cwd = [''work'']\<rparr>"

definition cleared_world :: world where
  "cleared_world = \<lparr>fs_root = Dir [(''work'', Dir [(''out'', Dir []), (''yolo26s_web_model'', tree150)])], cwd = [''work'']\<rparr>"

definition final_150 :: world where
  "final_150 = \<lparr>fs_root = Dir [(''work'', Dir [(''out'', Dir [(''model'', tree150)])])], cwd = [''work'']\<rparr>"

definition stub_bare_fails :: "string externals" where
  "stub_bare_fails = (stub tree150)\<lparr>YOLO := (\<lambda>s w. if s = ''yolo26s'' then (Inl (FrameworkError ''bare''), w)
       else YOLO (stub tree150) s w)\<rparr>"


subsection \<open>What the size sum counts\<close>

text \<open>
  A directory tree as a file system has it: within one directory every name occurs once,
  and no entry is called \<open>..\<close>.
\<close>

fun names_ok :: "node \<Rightarrow> bool" where
  "names_ok (Dir es) =
     (distinct (map fst es) \<and> ''..'' \<notin> set (map fst es) \<and> (\<forall>(n, x) \<in> set es. names_ok x))"
| "names_ok (File s) = True"
| "names_ok (Symlink a t) = True"

text \<open>
  What one entry \<open>x\<close> of the directory at \<open>loc\<close> adds to the sum, with \<open>k\<close> link
  traversals left: a regular file its size, a directory nothing, a link the size of the
  regular file it leads to, if it leads to one.
\<close>

definition entry_bytes :: "node \<Rightarrow> nat \<Rightarrow> string list \<Rightarrow> node \<Rightarrow> nat" where
  "entry_bytes r k loc x =
     (case x of
        File s \<Rightarrow> s
      | Dir es \<Rightarrow> 0
      | Symlink a t \<Rightarrow>
          (case k of
             0 \<Rightarrow> 0
           | Suc k' \<Rightarrow>
               (case walk r True k' (if a then [] else loc) t of
                  Inl e \<Rightarrow> 0
                | Inr (l, k'') \<Rightarrow> (case node_at r l of Some (File s) \<Rightarrow> s | _ \<Rightarrow> 0))))"

text \<open>The entries of a directory and, recursively, of its real subdirectories.\<close>

fun dir_bytes :: "node \<Rightarrow> nat \<Rightarrow> string list \<Rightarrow> node \<Rightarrow> nat" where
  "dir_bytes r k loc (Dir es) =
     sum_list (map (\<lambda>(n, x). entry_bytes r k loc x + dir_bytes r k (loc @ [n]) x) es)"
| "dir_bytes r k loc (File s) = 0"
| "dir_bytes r k loc (Symlink a t) = 0"

text \<open>The sum for a path: that of the directory the path resolves to, if it does.\<close>

definition followed_bytes :: "world \<Rightarrow> path \<Rightarrow> nat" where
  "followed_bytes w p =
     (case node_at (fs_root w) (start_of w p) of
        Some (Dir d) \<Rightarrow>
          (case walk (fs_root w) True MAXSYMLINKS (start_of w p) (parts p) of
             Inl e \<Rightarrow> 0
           | Inr (loc, k) \<Rightarrow>
               (case node_at (fs_root w) loc of
                  Some (Dir es) \<Rightarrow> dir_bytes (fs_root w) k loc (Dir es)
                | _ \<Rightarrow> 0))
      | _ \<Rightarrow> 0)"

text \<open>
  The sum in the spec's words: the sizes of the regular files of a tree, symbolic links
  and directories left out.
\<close>

fun regular_file_bytes :: "node \<Rightarrow> nat" where
  "regular_file_bytes (File s) = s"
| "regular_file_bytes (Dir es) = sum_list (map (\<lambda>(n, x). regular_file_bytes x) es)"
| "regular_file_bytes (Symlink a t) = 0"

fun link_free :: "node \<Rightarrow> bool" where
  "link_free (File s) = True"
| "link_free (Dir es) = (\<forall>(n, x) \<in> set es. link_free x)"
| "link_free (Symlink a t) = False"

definition counted :: "world \<Rightarrow> path \<Rightarrow> nat" where
  "counted w f = (if is_file w f then st_size w f else 0)"

text \<open>
  An export holding a regular file of \<open>s\<close> bytes and a symbolic link to it, and the worlds
  its run passes through.
\<close>

definition link_tree :: "nat \<Rightarrow> node" where
  "link_tree s = Dir [(''model.json'', File s), (''latest.json'', Symlink False [''model.json''])]"

definition exported_link :: "nat \<Rightarrow> world \<Rightarrow> world" where
  "exported_link s w =
     set_root w (put_at (cwd w @ [''yolo26s_web_model'']) (Some (link_tree s)) (fs_root w))"

definition made_link :: "nat \<Rightarrow> world" where
  "made_link s = \<lparr>fs_root = Dir [(''work'', Dir [(''yolo26s_web_model'', link_tree s), (''out'', Dir [])])],
                  cwd = [''work'']\<rparr>"

definition final_link :: "nat \<Rightarrow> world" where
  "final_link s = \<lparr>fs_root = Dir [(''work'', Dir [(''out'', Dir [(''model'', link_tree s)])])],
                   cwd = [''work'']\<rparr>"

text \<open>A framework whose export refuses the model loaded from \<^verbatim>\<open>yolo26s.pt\<close>.\<close>

definition refusing_stub :: "string externals" where
  "refusing_stub = (stub tree150)\<lparr>model_export := (\<lambda>m fmt w.
       if m = ''yolo26s.pt'' then (Inl (FrameworkError ''cannot export''), w)
       else model_export (stub tree150) m fmt w)\<rparr>"

text \<open>A world in which the destination's parent is a regular file.\<close>

definition file_parent_world :: world where
  "file_parent_world = \<lparr>fs_root = Dir [(''work'', Dir [(''out'', File 3)])], cwd = [''work'']\<rparr>"

text \<open>A framework whose export succeeds without writing anything.\<close>

definition silent_stub :: "string externals" where
  "silent_stub = (stub tree150)\<lparr>model_export := (\<lambda>m fmt w. (Inr [], w))\<rparr>"

definition emptied_world :: world where
  "emptied_world = \<lparr>fs_root = Dir [(''work'', Dir [(''out'', Dir [])])], cwd = [''work'']\<rparr>"

subsection \<open>Vocabulary for the final state\<close>

text \<open>What resolution sees of a node: its kind, and for a link its target.\<close>

fun shape :: "node \<Rightarrow> node" where
  "shape (Dir es) = Dir []"
| "shape x = x"

text \<open>\<open>r'\<close> has everything \<open>r\<close> has, of the same kind, and possibly more.\<close>

definition extension :: "node \<Rightarrow> node \<Rightarrow> bool" where
  "extension r r' \<longleftrightarrow>
     (\<forall>l x. node_at r l = Some x \<longrightarrow> (\<exists>x'. node_at r' l = Some x' \<and> shape x' = shape x))"

subsection \<open>Vocabulary for plain destinations\<close>

text \<open>
  A path written without \<open>..\<close> whose every prefix, the path itself included, is no
  symbolic link in the tree \<open>r\<close>: it resolves to the location it spells.
\<close>

definition link_at :: "node \<Rightarrow> string list \<Rightarrow> bool" where
  "link_at r l = (case node_at r l of Some (Symlink a t) \<Rightarrow> True | _ \<Rightarrow> False)"

definition plain :: "node \<Rightarrow> string list \<Rightarrow> string list \<Rightarrow> bool" where
  "plain r base ps \<longleftrightarrow>
     ''..'' \<notin> set ps \<and> (\<forall>i \<in> set [0..<Suc (length ps)]. \<not> link_at r (base @ take i ps))"

text \<open>The location a path spells, and the paths that resolve to it.\<close>

definition spelled :: "world \<Rightarrow> path \<Rightarrow> string list" where
  "spelled w p = start_of w p @ parts p"

definition plain_path :: "world \<Rightarrow> path \<Rightarrow> bool" where
  "plain_path w p \<longleftrightarrow> plain (fs_root w) (start_of w p) (parts p)"

text \<open>Two locations neither of which lies at or below the other.\<close>

definition unrelated :: "string list \<Rightarrow> string list \<Rightarrow> bool" where
  "unrelated a b \<longleftrightarrow> \<not> prefix a b \<and> \<not> prefix b a"

text \<open>
  The world in which line 19 is reached: the one the framework's export returned, if
  loading and exporting both succeeded.
\<close>

definition after_export :: "'m externals \<Rightarrow> string \<Rightarrow> world \<Rightarrow> world option" where
  "after_export ext model_name w0 =
     (case YOLO ext (model_name @ ''.pt'') w0 of
        (Inl e, w1) \<Rightarrow> None
      | (Inr model, w1) \<Rightarrow>
          (case model_export ext model ''tfjs'' w1 of
             (Inl e, w2) \<Rightarrow> None
           | (Inr exported, w2) \<Rightarrow> Some w2))"

text \<open>
  What creating directories along the location \<open>P\<close> may change: nothing off the way to
  \<open>P\<close>; on the way, what exists keeps its kind and what does not exist stays away or
  becomes a directory.
\<close>

definition frame :: "string list \<Rightarrow> node \<Rightarrow> node \<Rightarrow> bool" where
  "frame P r r' \<longleftrightarrow>
     (\<forall>l. \<not> prefix l P \<longrightarrow> node_at r' l = node_at r l)
     \<and> (\<forall>l. prefix l P \<longrightarrow>
          (case node_at r l of
             Some x \<Rightarrow> map_option shape (node_at r' l) = Some (shape x)
           | None \<Rightarrow> node_at r' l = None \<or> (\<exists>es. node_at r' l = Some (Dir es))))"

text \<open>
  A framework that writes its export next to the weights file it was given, the way a
  path is read: for the weights \<^verbatim>\<open>/abs/yolo.pt\<close> the export is \<^verbatim>\<open>/abs/yolo_web_model\<close>.
  A world with a directory \<^verbatim>\<open>/abs\<close> beside the working directory, and the worlds a run
  from it passes through.
\<close>

definition stub_beside :: "node \<Rightarrow> string externals" where
  "stub_beside tree = (stub tree)\<lparr>model_export := (\<lambda>m fmt w.
       (Inr (take (length m - 3) m @ ''_web_model''),
        set_root w (put_at (spelled w (Path (take (length m - 3) m @ ''_web_model'')))
                      (Some tree) (fs_root w))))\<rparr>"

definition abs_world :: world where
  "abs_world = \<lparr>fs_root = Dir [(''abs'', Dir []), (''work'', Dir [])], cwd = [''work'']\<rparr>"

definition abs_exported :: world where
  "abs_exported = \<lparr>fs_root = Dir [(''abs'', Dir [(''yolo_web_model'', tree150)]), (''work'', Dir [])],
                    cwd = [''work'']\<rparr>"

definition abs_made :: world where
  "abs_made = \<lparr>fs_root = Dir [(''abs'', Dir [(''yolo_web_model'', tree150)]),
                               (''work'', Dir [(''out'', Dir [])])],
                cwd = [''work'']\<rparr>"

definition abs_final :: world where
  "abs_final = \<lparr>fs_root = Dir [(''abs'', Dir []),
                                (''work'', Dir [(''out'', Dir [(''model'', tree150)])])],
                 cwd = [''work'']\<rparr>"

text \<open>
  A destination written through \<open>..\<close>: \<^verbatim>\<open>x/y/..\<close>, in a world where \<^verbatim>\<open>x\<close> holds a file and
  \<^verbatim>\<open>x/y\<close> does not exist; and the worlds a run from it passes through.
\<close>

definition out_dotdot :: path where
  "out_dotdot = Path ''x/y/..''"

definition stale_x_world :: world where
  "stale_x_world = \<lparr>fs_root = Dir [(''work'', Dir [(''x'', Dir [(''old.bin'', File 7)])])],
                     cwd = [''work'']\<rparr>"

definition made_x :: world where
  "made_x = \<lparr>fs_root = Dir [(''work'', Dir [(''x'', Dir [(''old.bin'', File 7), (''y'', Dir [])]),
                                             (''yolo26s_web_model'', tree150)])],
              cwd = [''work'']\<rparr>"

definition final_x :: world where
  "final_x = \<lparr>fs_root = Dir [(''work'', Dir [(''x'', Dir [(''old.bin'', File 7), (''y'', Dir []),
                                                            (''yolo26s_web_model'', tree150)])])],
               cwd = [''work'']\<rparr>"

text \<open>
  A destination written through itself, \<^verbatim>\<open>d/../d\<close>, in a world where \<^verbatim>\<open>d\<close> holds a file;
  and the world a failing run from it ends in.
\<close>

definition out_dd :: path where
  "out_dd = Path ''d/../d''"

definition dd_world :: world where
  "dd_world = \<lparr>fs_root = Dir [(''work'', Dir [(''d'', Dir [(''old.bin'', File 7)])])],
                cwd = [''work'']\<rparr>"

definition dd_final :: world where
  "dd_final = \<lparr>fs_root = Dir [(''work'', Dir [(''d'', Dir [])])], cwd = [''work'']\<rparr>"

section \<open>Properties\<close>

subsection \<open>The shape of a run\<close>

lemma move_cong_ext:
  "copy_then_delete ext' = copy_then_delete ext \<Longrightarrow> move ext' w a b = move ext w a b"
  by (simp only: move_def)

lemmas t_defs = t_load_def t_export_def t_rmtree_def t_mkdir_def t_move_def

lemma run_load_fails:
  assumes "YOLO ext (name @ ''.pt'') w0 = (Inl e, w1)"
  shows "export_model ext name out w0 = \<lparr>outcome = Inl e, final = w1, trace = t_load name\<rparr>"
  using assms by (simp add: export_model_def t_defs)

lemma run_export_fails:
  assumes "YOLO ext (name @ ''.pt'') w0 = (Inr m, w1)"
      and "model_export ext m ''tfjs'' w1 = (Inl e, w2)"
  shows "export_model ext name out w0 = \<lparr>outcome = Inl e, final = w2, trace = t_export name\<rparr>"
  using assms by (simp add: export_model_def t_defs)

lemma run_rmtree_fails:
  assumes "YOLO ext (name @ ''.pt'') w0 = (Inr m, w1)"
      and "model_export ext m ''tfjs'' w1 = (Inr x, w2)"
      and "(if path_exists w2 out then rmtree w2 out else (Inr (), w2)) = (Inl e, w3)"
  shows "export_model ext name out w0 =
           \<lparr>outcome = Inl e, final = w3, trace = t_rmtree name out (path_exists w2 out)\<rparr>"
  using assms by (simp add: export_model_def t_defs Let_def)

lemma run_mkdir_fails:
  assumes "YOLO ext (name @ ''.pt'') w0 = (Inr m, w1)"
      and "model_export ext m ''tfjs'' w1 = (Inr x, w2)"
      and "(if path_exists w2 out then rmtree w2 out else (Inr (), w2)) = (Inr u, w3)"
      and "mkdir w3 (parent out) = (Inl e, w4)"
  shows "export_model ext name out w0 =
           \<lparr>outcome = Inl e, final = w4, trace = t_mkdir name out (path_exists w2 out)\<rparr>"
  using assms by (simp add: export_model_def t_defs Let_def)

lemma run_move_fails:
  assumes "YOLO ext (name @ ''.pt'') w0 = (Inr m, w1)"
      and "model_export ext m ''tfjs'' w1 = (Inr x, w2)"
      and "(if path_exists w2 out then rmtree w2 out else (Inr (), w2)) = (Inr u, w3)"
      and "mkdir w3 (parent out) = (Inr u', w4)"
      and "move ext w4 (Path (name @ ''_web_model'')) out = (Inl e, w5)"
  shows "export_model ext name out w0 =
           \<lparr>outcome = Inl e, final = w5, trace = t_move name out (path_exists w2 out)\<rparr>"
  using assms by (simp add: export_model_def t_defs Let_def)

lemma run_succeeds:
  assumes "YOLO ext (name @ ''.pt'') w0 = (Inr m, w1)"
      and "model_export ext m ''tfjs'' w1 = (Inr x, w2)"
      and "(if path_exists w2 out then rmtree w2 out else (Inr (), w2)) = (Inr u, w3)"
      and "mkdir w3 (parent out) = (Inr u', w4)"
      and "move ext w4 (Path (name @ ''_web_model'')) out = (Inr u'', w5)"
  shows "export_model ext name out w0 =
           \<lparr>outcome = Inr None, final = w5,
            trace = t_move name out (path_exists w2 out) @
              [Print (''Model exported to '' @ str_path out),
               Print (''Total size: '' @ format_mb (total_size w5 out) @ '' MB'')]\<rparr>"
  using assms by (simp add: export_model_def t_defs Let_def)

lemma run_cases [case_names load_fails export_fails rmtree_fails mkdir_fails move_fails succeeds]:
  obtains
    (load_fails) e w1 where "YOLO ext (name @ ''.pt'') w0 = (Inl e, w1)"
  | (export_fails) m w1 e w2 where "YOLO ext (name @ ''.pt'') w0 = (Inr m, w1)"
      "model_export ext m ''tfjs'' w1 = (Inl e, w2)"
  | (rmtree_fails) m w1 x w2 e w3 where "YOLO ext (name @ ''.pt'') w0 = (Inr m, w1)"
      "model_export ext m ''tfjs'' w1 = (Inr x, w2)"
      "(if path_exists w2 out then rmtree w2 out else (Inr (), w2)) = (Inl e, w3)"
  | (mkdir_fails) m w1 x w2 w3 e w4 where "YOLO ext (name @ ''.pt'') w0 = (Inr m, w1)"
      "model_export ext m ''tfjs'' w1 = (Inr x, w2)"
      "(if path_exists w2 out then rmtree w2 out else (Inr (), w2)) = (Inr (), w3)"
      "mkdir w3 (parent out) = (Inl e, w4)"
  | (move_fails) m w1 x w2 w3 w4 e w5 where "YOLO ext (name @ ''.pt'') w0 = (Inr m, w1)"
      "model_export ext m ''tfjs'' w1 = (Inr x, w2)"
      "(if path_exists w2 out then rmtree w2 out else (Inr (), w2)) = (Inr (), w3)"
      "mkdir w3 (parent out) = (Inr (), w4)"
      "move ext w4 (Path (name @ ''_web_model'')) out = (Inl e, w5)"
  | (succeeds) m w1 x w2 w3 w4 w5 where "YOLO ext (name @ ''.pt'') w0 = (Inr m, w1)"
      "model_export ext m ''tfjs'' w1 = (Inr x, w2)"
      "(if path_exists w2 out then rmtree w2 out else (Inr (), w2)) = (Inr (), w3)"
      "mkdir w3 (parent out) = (Inr (), w4)"
      "move ext w4 (Path (name @ ''_web_model'')) out = (Inr (), w5)"
proof -
  obtain r1 w1 where s1: "YOLO ext (name @ ''.pt'') w0 = (r1, w1)" by (cases "YOLO ext (name @ ''.pt'') w0")
  show thesis
  proof (cases r1)
    case (Inl e) with s1 load_fails show thesis by simp
  next
    case (Inr m)
    obtain r2 w2 where s2: "model_export ext m ''tfjs'' w1 = (r2, w2)"
      by (cases "model_export ext m ''tfjs'' w1")
    show thesis
    proof (cases r2)
      case (Inl e) with s1 s2 Inr export_fails show thesis by simp
    next
      case x: (Inr x)
      obtain r3 w3 where s3: "(if path_exists w2 out then rmtree w2 out else (Inr (), w2)) = (r3, w3)"
        by (cases "(if path_exists w2 out then rmtree w2 out else (Inr (), w2))")
      show thesis
      proof (cases r3)
        case (Inl e) with s1 s2 s3 Inr x rmtree_fails show thesis by simp
      next
        case u3: (Inr u3)
        obtain r4 w4 where s4: "mkdir w3 (parent out) = (r4, w4)" by (cases "mkdir w3 (parent out)")
        show thesis
        proof (cases r4)
          case (Inl e) with s1 s2 s3 s4 Inr x u3 mkdir_fails show thesis by simp
        next
          case u4: (Inr u4)
          obtain r5 w5 where s5: "move ext w4 (Path (name @ ''_web_model'')) out = (r5, w5)"
            by (cases "move ext w4 (Path (name @ ''_web_model'')) out")
          show thesis
          proof (cases r5)
            case (Inl e) with s1 s2 s3 s4 s5 Inr x u3 u4 move_fails show thesis by simp
          next
            case u5: (Inr u5) with s1 s2 s3 s4 s5 Inr x u3 u4 succeeds show thesis by simp
          qed
        qed
      qed
    qed
  qed
qed

subsection \<open>The example runs\<close>

lemma stub_load: "s \<noteq> ''not-a-real-model.pt'' \<Longrightarrow> YOLO (stub t) s w = (Inr s, w)"
  by (simp add: stub_def)

lemma stub_export_yolo26s:
  "model_export (stub tree150) ''yolo26s.pt'' ''tfjs'' w = (Inr ''yolo26s_web_model'', exported_150 w)"
  by (simp add: stub_def exported_150_def stub_export_loc_def)

lemma format_mb_150: "format_mb 150 = ''0.0''"
  by (simp add: format_mb_def mb_tenths_def)

lemma total_final_150: "total_size final_150 out_model = 150"
  by code_simp

lemma str_out_model: "str_path out_model = ''out/model''"
  by code_simp

lemma move_made_world:
  "move (stub tree150) made_world (Path ''yolo26s_web_model'') out_model = (Inr (), final_150)"
  by code_simp

lemma move_cleared_world:
  "move (stub tree150) cleared_world (Path ''yolo26s_web_model'') out_model = (Inr (), final_150)"
  by code_simp

lemma run_stale_world:
  "export_model (stub tree150) ''yolo26s'' out_model stale_world =
     \<lparr>outcome = Inr None, final = final_150,
      trace = [Print ''Loading yolo26s...'', CallYOLO ''yolo26s.pt'',
               Print ''Exporting to TensorFlow.js format...'', CallExport ''tfjs'',
               CallRmtree out_model, CallMkdir (parent out_model),
               CallMove (Path ''yolo26s_web_model'') out_model,
               Print ''Model exported to out/model'', Print ''Total size: 0.0 MB'']\<rparr>"
proof -
  have s1: "YOLO (stub tree150) (''yolo26s'' @ ''.pt'') stale_world = (Inr ''yolo26s.pt'', stale_world)"
    by (simp add: stub_load)
  have s3: "(if path_exists (exported_150 stale_world) out_model
             then rmtree (exported_150 stale_world) out_model
             else (Inr (), exported_150 stale_world)) = (Inr (), cleared_world)"
    by code_simp
  have ex: "path_exists (exported_150 stale_world) out_model" by code_simp
  have s4: "mkdir cleared_world (parent out_model) = (Inr (), cleared_world)" by code_simp
  have s5: "move (stub tree150) cleared_world (Path (''yolo26s'' @ ''_web_model'')) out_model = (Inr (), final_150)"
    using move_cleared_world by simp
  show ?thesis
    by (simp add: run_succeeds[OF s1 stub_export_yolo26s s3 s4 s5] t_defs ex
          total_final_150 format_mb_150 str_out_model)
qed

lemma run_empty_world:
  "export_model (stub tree150) ''yolo26s'' out_model empty_world =
     \<lparr>outcome = Inr None, final = final_150,
      trace = [Print ''Loading yolo26s...'', CallYOLO ''yolo26s.pt'',
               Print ''Exporting to TensorFlow.js format...'', CallExport ''tfjs'',
               CallMkdir (parent out_model),
               CallMove (Path ''yolo26s_web_model'') out_model,
               Print ''Model exported to out/model'', Print ''Total size: 0.0 MB'']\<rparr>"
proof -
  have s1: "YOLO (stub tree150) (''yolo26s'' @ ''.pt'') empty_world = (Inr ''yolo26s.pt'', empty_world)"
    by (simp add: stub_load)
  have ex: "\<not> path_exists (exported_150 empty_world) out_model" by code_simp
  then have s3: "(if path_exists (exported_150 empty_world) out_model
             then rmtree (exported_150 empty_world) out_model
             else (Inr (), exported_150 empty_world)) = (Inr (), exported_150 empty_world)"
    by simp
  have s4: "mkdir (exported_150 empty_world) (parent out_model) = (Inr (), made_world)" by code_simp
  have s5: "move (stub tree150) made_world (Path (''yolo26s'' @ ''_web_model'')) out_model = (Inr (), final_150)"
    using move_made_world by simp
  show ?thesis
    by (simp add: run_succeeds[OF s1 stub_export_yolo26s s3 s4 s5] t_defs ex
          total_final_150 format_mb_150 str_out_model)
qed

subsection \<open>Claims about the calls a run makes\<close>

lemma split_sep_no_slash: "CHR ''/'' \<notin> set s \<Longrightarrow> split_sep s = [s]"
  by (induction s) auto

lemma Path_plain_name:
  assumes "CHR ''/'' \<notin> set s" "s \<noteq> []" "s \<noteq> ''.''"
  shows "Path s = \<lparr>absolute = False, double_slash = False, parts = [s]\<rparr>"
proof -
  have "hd s \<noteq> CHR ''/''" using assms by (cases s) auto
  then show ?thesis using assms
    by (cases s) (auto simp: Path_def split_sep_no_slash two_slashes_def split: list.splits)
qed

lemma Path_web_model:
  "CHR ''/'' \<notin> set name \<Longrightarrow>
     Path (name @ ''_web_model'') = \<lparr>absolute = False, double_slash = False, parts = [name @ ''_web_model'']\<rparr>"
  by (rule Path_plain_name) auto

text \<open>
  C10. For every model identifier the load operation is invoked with the identifier
  followed by the literal suffix \<open>.pt\<close>, never with the bare identifier. What the
  framework's loader does at \<open>name @ ''.pt''\<close> decides the run: if it fails there, the
  run fails with its error in the world it left; if it yields a model, that model is
  what the run exports, in the world the load left, so that a failing export of it
  fails the run. What the loader does at any other argument, the bare identifier
  included, changes nothing; and the trace holds that one load call.
\<close>

theorem load_called_with_pt_suffix:
  "(\<forall>e w1. YOLO ext (name @ ''.pt'') w = (Inl e, w1) \<longrightarrow>
       outcome (export_model ext name out w) = Inl e
       \<and> final (export_model ext name out w) = w1)
   \<and> (\<forall>m w1 e w2. YOLO ext (name @ ''.pt'') w = (Inr m, w1)
          \<and> model_export ext m ''tfjs'' w1 = (Inl e, w2) \<longrightarrow>
       outcome (export_model ext name out w) = Inl e
       \<and> final (export_model ext name out w) = w2)
   \<and> (\<forall>ext'. YOLO ext' (name @ ''.pt'') = YOLO ext (name @ ''.pt'')
          \<and> model_export ext' = model_export ext
          \<and> copy_then_delete ext' = copy_then_delete ext \<longrightarrow>
       export_model ext' name out w = export_model ext name out w)
   \<and> filter is_load (trace (export_model ext name out w)) = [CallYOLO (name @ ''.pt'')]"
proof (intro conjI allI impI)
  fix e w1
  assume "YOLO ext (name @ ''.pt'') w = (Inl e, w1)"
  then have "export_model ext name out w = \<lparr>outcome = Inl e, final = w1, trace = t_load name\<rparr>"
    by (rule run_load_fails)
  then show "outcome (export_model ext name out w) = Inl e"
    and "final (export_model ext name out w) = w1"
    by simp_all
next
  fix m w1 e w2
  assume "YOLO ext (name @ ''.pt'') w = (Inr m, w1) \<and> model_export ext m ''tfjs'' w1 = (Inl e, w2)"
  then have "export_model ext name out w = \<lparr>outcome = Inl e, final = w2, trace = t_export name\<rparr>"
    by (simp add: run_export_fails)
  then show "outcome (export_model ext name out w) = Inl e"
    and "final (export_model ext name out w) = w2"
    by simp_all
next
  fix ext' :: "'a externals"
  assume a: "YOLO ext' (name @ ''.pt'') = YOLO ext (name @ ''.pt'')
          \<and> model_export ext' = model_export ext
          \<and> copy_then_delete ext' = copy_then_delete ext"
  then have c: "copy_then_delete ext' = copy_then_delete ext" by simp
  from a show "export_model ext' name out w = export_model ext name out w"
    by (simp only: export_model_def move_cong_ext[OF c])
next
  show "filter is_load (trace (export_model ext name out w)) = [CallYOLO (name @ ''.pt'')]"
    by (cases rule: run_cases[where ext=ext and name=name and ?w0.0=w and out=out])
       (simp_all add: run_load_fails run_export_fails run_rmtree_fails run_mkdir_fails
          run_move_fails run_succeeds t_defs)
qed

text \<open>
  Instances: a loader that fails at \<^verbatim>\<open>not-a-real-model.pt\<close>; an export that refuses the
  model loaded from \<^verbatim>\<open>yolo26s.pt\<close>; a loader that would fail on the bare identifier
  \<^verbatim>\<open>yolo26s\<close>, which changes nothing.
\<close>

theorem load_called_with_pt_suffix_witness:
  "YOLO (stub tree150) (''not-a-real-model'' @ ''.pt'') empty_world
     = (Inl (FrameworkError ''not found''), empty_world)
   \<and> outcome (export_model (stub tree150) ''not-a-real-model'' out_model empty_world)
     = Inl (FrameworkError ''not found'')
   \<and> YOLO refusing_stub (''yolo26s'' @ ''.pt'') empty_world = (Inr ''yolo26s.pt'', empty_world)
   \<and> model_export refusing_stub ''yolo26s.pt'' ''tfjs'' empty_world
     = (Inl (FrameworkError ''cannot export''), empty_world)
   \<and> outcome (export_model refusing_stub ''yolo26s'' out_model empty_world)
     = Inl (FrameworkError ''cannot export'')
   \<and> final (export_model refusing_stub ''yolo26s'' out_model empty_world) = empty_world
   \<and> YOLO stub_bare_fails ''yolo26s'' empty_world \<noteq> YOLO (stub tree150) ''yolo26s'' empty_world
   \<and> export_model stub_bare_fails ''yolo26s'' out_model empty_world
     = export_model (stub tree150) ''yolo26s'' out_model empty_world
   \<and> filter is_load (trace (export_model (stub tree150) ''yolo26s'' out_model empty_world))
     = [CallYOLO ''yolo26s.pt'']"
proof -
  have l1: "YOLO (stub tree150) (''not-a-real-model'' @ ''.pt'') empty_world
              = (Inl (FrameworkError ''not found''), empty_world)"
    by (simp add: stub_def)
  have l2: "YOLO refusing_stub (''yolo26s'' @ ''.pt'') empty_world = (Inr ''yolo26s.pt'', empty_world)"
    by (simp add: refusing_stub_def stub_def)
  have l3: "model_export refusing_stub ''yolo26s.pt'' ''tfjs'' empty_world
              = (Inl (FrameworkError ''cannot export''), empty_world)"
    by (simp add: refusing_stub_def)
  have h1: "YOLO stub_bare_fails (''yolo26s'' @ ''.pt'') = YOLO (stub tree150) (''yolo26s'' @ ''.pt'')"
    by (simp add: stub_bare_fails_def)
  have h2: "model_export stub_bare_fails = model_export (stub tree150)"
    by (simp add: stub_bare_fails_def)
  have h3: "copy_then_delete stub_bare_fails = copy_then_delete (stub tree150)"
    by (simp add: stub_bare_fails_def)
  have d: "YOLO stub_bare_fails ''yolo26s'' empty_world \<noteq> YOLO (stub tree150) ''yolo26s'' empty_world"
    by (simp add: stub_bare_fails_def stub_def)
  from load_called_with_pt_suffix[where ext="stub tree150" and name="''not-a-real-model''"
         and w=empty_world and out=out_model] l1
  have a: "outcome (export_model (stub tree150) ''not-a-real-model'' out_model empty_world)
             = Inl (FrameworkError ''not found'')"
    by blast
  from load_called_with_pt_suffix[where ext=refusing_stub and name="''yolo26s''"
         and w=empty_world and out=out_model] l2 l3
  have b: "outcome (export_model refusing_stub ''yolo26s'' out_model empty_world)
             = Inl (FrameworkError ''cannot export'')
           \<and> final (export_model refusing_stub ''yolo26s'' out_model empty_world) = empty_world"
    by blast
  from load_called_with_pt_suffix[where ext="stub tree150" and name="''yolo26s''"
         and w=empty_world and out=out_model] h1 h2 h3
  have c: "export_model stub_bare_fails ''yolo26s'' out_model empty_world
             = export_model (stub tree150) ''yolo26s'' out_model empty_world
           \<and> filter is_load (trace (export_model (stub tree150) ''yolo26s'' out_model empty_world))
             = [CallYOLO (''yolo26s'' @ ''.pt'')]"
    by blast
  from l1 l2 l3 a b c d show ?thesis by simp
qed

text \<open>
  C5. If the load step fails, the run ends with that error in the world exactly as the
  failed load left it: no remove, no create and no move is performed, on the
  destination or anywhere else.
\<close>

theorem load_failure_leaves_destination:
  assumes "YOLO ext (name @ ''.pt'') w = (Inl e, w')"
  shows "export_model ext name out w =
           \<lparr>outcome = Inl e, final = w',
            trace = [Print (''Loading '' @ name @ ''...''), CallYOLO (name @ ''.pt'')]\<rparr>
         \<and> filter is_fs_call (trace (export_model ext name out w)) = []"
  using assms by (simp add: run_load_fails t_defs)

text \<open>An instance: the unknown identifier \<open>not-a-real-model\<close>, destination already populated.\<close>

theorem load_failure_leaves_destination_witness:
  "YOLO (stub tree150) (''not-a-real-model'' @ ''.pt'') stale_world
     = (Inl (FrameworkError ''not found''), stale_world)
   \<and> export_model (stub tree150) ''not-a-real-model'' out_model stale_world =
           \<lparr>outcome = Inl (FrameworkError ''not found''), final = stale_world,
            trace = [Print (''Loading '' @ ''not-a-real-model'' @ ''...''),
                     CallYOLO (''not-a-real-model'' @ ''.pt'')]\<rparr>
   \<and> filter is_fs_call (trace (export_model (stub tree150) ''not-a-real-model'' out_model stale_world)) = []"
proof -
  have h: "YOLO (stub tree150) (''not-a-real-model'' @ ''.pt'') stale_world
     = (Inl (FrameworkError ''not found''), stale_world)"
    by (simp add: stub_def)
  show ?thesis using h load_failure_leaves_destination[OF h, of out_model] by simp
qed

text \<open>
  Against C4 as stated (parent created first, destination removed afterwards): with
  the destination already present, the run calls \<open>rmtree\<close> first and \<open>mkdir\<close> second.
\<close>

theorem parent_created_before_removal_counterexample:
  "filter is_fs_call (trace (export_model (stub tree150) ''yolo26s'' out_model stale_world))
     = [CallRmtree out_model, CallMkdir (parent out_model),
        CallMove (Path ''yolo26s_web_model'') out_model]
   \<and> filter is_fs_call (trace (export_model (stub tree150) ''yolo26s'' out_model stale_world))
     \<noteq> [CallMkdir (parent out_model), CallRmtree out_model,
        CallMove (Path ''yolo26s_web_model'') out_model]"
  by (simp add: run_stale_world)

text \<open>
  C4, amended. The run performs its file-system steps in this order: it first removes
  the destination if it exists, then ensures that the destination's parent exists, then
  moves. The file-system calls of any run are an initial part of
  \<open>rmtree, mkdir, move\<close> or, when the destination did not exist, of \<open>mkdir, move\<close>.
\<close>

theorem removal_before_parent_creation:
  "prefix (filter is_fs_call (trace (export_model ext name out w)))
      [CallRmtree out, CallMkdir (parent out), CallMove (Path (name @ ''_web_model'')) out]
   \<or> prefix (filter is_fs_call (trace (export_model ext name out w)))
      [CallMkdir (parent out), CallMove (Path (name @ ''_web_model'')) out]"
  by (cases rule: run_cases[where ext=ext and name=name and ?w0.0=w and out=out])
     (simp_all add: run_load_fails run_export_fails run_rmtree_fails run_mkdir_fails
          run_move_fails run_succeeds t_defs)

text \<open>
  Against C3 as stated: in the spec's example (a 150-byte export to \<^verbatim>\<open>./out/model\<close>) the
  function returns \<^verbatim>\<open>None\<close>, not a result carrying the directory and 150; the only size
  it gives out is the printed \<^verbatim>\<open>0.0 MB\<close>.
\<close>

theorem returns_export_result_counterexample:
  "outcome (export_model (stub tree150) ''yolo26s'' out_model empty_world) = Inr None
   \<and> outcome (export_model (stub tree150) ''yolo26s'' out_model empty_world)
       \<noteq> Inr (Some \<lparr>finalDirectory = out_model, totalBytes = 150\<rparr>)
   \<and> total_size (final (export_model (stub tree150) ''yolo26s'' out_model empty_world)) out_model = 150
   \<and> last (trace (export_model (stub tree150) ''yolo26s'' out_model empty_world))
       = Print ''Total size: 0.0 MB''"
  by (simp add: run_empty_world total_final_150)

text \<open>
  C3, amended. On success the function returns nothing (\<^verbatim>\<open>None\<close>); it reports by
  printing, as its last two lines, the destination path as \<^verbatim>\<open>str\<close> gives it and the
  recursive file-size total of the destination in the final world, converted to MB with
  one decimal. This is stated for totals below \<open>2^53\<close> bytes, where the conversion is
  exact.
\<close>

theorem returns_nothing_and_prints_report:
  assumes "outcome (export_model ext name out w) = Inr v"
      and "float_exact (total_size (final (export_model ext name out w)) out)"
  shows "v = None
     \<and> (\<exists>pre. trace (export_model ext name out w) = pre @
           [Print (''Model exported to '' @ str_path out),
            Print (''Total size: ''
                   @ format_mb (total_size (final (export_model ext name out w)) out) @ '' MB'')])"
  using assms(1)
proof (cases rule: run_cases[where ext=ext and name=name and ?w0.0=w and out=out])
  case (succeeds m w1 x w2 w3 w4 w5)
  with assms(1) show ?thesis by (auto simp: run_succeeds)
qed (simp_all add: run_load_fails run_export_fails run_rmtree_fails run_mkdir_fails run_move_fails)

text \<open>An instance: the example run over a populated destination.\<close>

theorem returns_nothing_and_prints_report_witness:
  "outcome (export_model (stub tree150) ''yolo26s'' out_model stale_world) = Inr None
   \<and> float_exact (total_size (final (export_model (stub tree150) ''yolo26s'' out_model stale_world)) out_model)
   \<and> (\<exists>pre. trace (export_model (stub tree150) ''yolo26s'' out_model stale_world) = pre @
           [Print ''Model exported to out/model'', Print ''Total size: 0.0 MB''])"
proof -
  have h: "outcome (export_model (stub tree150) ''yolo26s'' out_model stale_world) = Inr None"
    by (simp add: run_stale_world)
  have f: "final (export_model (stub tree150) ''yolo26s'' out_model stale_world) = final_150"
    by (simp add: run_stale_world)
  have e: "float_exact (total_size (final (export_model (stub tree150) ''yolo26s'' out_model stale_world)) out_model)"
    by (simp add: f total_final_150 float_exact_def)
  show ?thesis
    using returns_nothing_and_prints_report[OF h e] h e
    by (simp add: f total_final_150 format_mb_150 str_out_model)
qed

subsection \<open>Resolution below a resolved directory\<close>

lemma walk_append:
  "walk r True K cur ps = Inr (loc, k) \<Longrightarrow> node_at r loc = Some (Dir es) \<Longrightarrow> qs \<noteq> []
   \<Longrightarrow> walk r fl K cur (ps @ qs) = walk r fl k loc qs"
proof (induction r True K cur ps rule: walk.induct)
  case (1 r k cur)
  then show ?case by simp
next
  case (2 r k cur c cs)
  show ?case
  proof (cases "c = ''..''")
    case True
    with 2 show ?thesis by simp
  next
    case False
    note nd = False
    show ?thesis
    proof (cases "node_at r (cur @ [c])")
      case None
      with 2 nd show ?thesis by simp
    next
      case (Some x)
      show ?thesis
      proof (cases x)
        case (File n)
        with 2 nd Some show ?thesis by (auto split: if_splits)
      next
        case (Dir es')
        with 2 nd Some show ?thesis by simp
      next
        case (Symlink a t)
        show ?thesis
        proof (cases k)
          case 0
          with 2 nd Some Symlink show ?thesis by simp
        next
          case (Suc k')
          with 2 nd Some Symlink show ?thesis by simp
        qed
      qed
    qed
  qed
qed

lemma node_at_append:
  "node_at r (l @ [n]) = (case node_at r l of Some (Dir es) \<Rightarrow> map_of es n | _ \<Rightarrow> None)"
proof (induction r l rule: node_at.induct)
  case (1 r)
  then show ?case by (cases r) (auto split: option.splits)
qed (auto split: option.splits)

lemma walk_entry:
  assumes "n \<noteq> ''..''" "node_at r (l @ [n]) = Some x"
  shows "walk r True k l [n] =
           (case x of
              Symlink a t \<Rightarrow> (case k of 0 \<Rightarrow> Inl ELOOP
                               | Suc k' \<Rightarrow> walk r True k' (if a then [] else l) t)
            | _ \<Rightarrow> Inr (l @ [n], k))"
  using assms by (cases x) (auto split: nat.splits)

lemma walk_into_dir:
  assumes "n \<noteq> ''..''" "node_at r (l @ [n]) = Some (Dir es)"
  shows "walk r fl k l (n # qs) = walk r fl k (l @ [n]) qs"
  using assms by simp

lemma names_ok_node_at: "names_ok r \<Longrightarrow> node_at r l = Some x \<Longrightarrow> names_ok x"
proof (induction r l rule: node_at.induct)
  case (2 es c cs)
  then show ?case by (auto split: option.splits dest!: map_of_SomeD)
qed auto

subsection \<open>The size sum, entry by entry\<close>

lemma total_size_counted: "total_size w p = sum_list (map (counted w) (rglob w p))"
proof -
  have "sum_list (map (st_size w) (filter (is_file w) xs)) = sum_list (map (counted w) xs)" for xs
    by (induction xs) (auto simp: counted_def)
  then show ?thesis by (simp add: total_size_def)
qed

lemma counted_entry:
  assumes start: "node_at (fs_root w) (start_of w q) = Some (Dir d)"
      and R: "\<And>qs. qs \<noteq> [] \<Longrightarrow>
                walk (fs_root w) True MAXSYMLINKS (start_of w q) (parts q @ qs)
                  = walk (fs_root w) True k l qs"
      and n: "n \<noteq> ''..''" and x: "node_at (fs_root w) (l @ [n]) = Some x"
  shows "counted w (joinpath q n) = entry_bytes (fs_root w) k l x"
proof -
  have s: "start_of w (joinpath q n) = start_of w q" by (simp add: start_of_def joinpath_def)
  have p: "parts (joinpath q n) = parts q @ [n]" by (simp add: joinpath_def)
  have w1: "walk (fs_root w) True MAXSYMLINKS (start_of w q) (parts q @ [n])
              = walk (fs_root w) True k l [n]"
    by (rule R) simp
  show ?thesis
    unfolding counted_def is_file_def st_size_def stat_node_def resolve_def s p w1
      walk_entry[OF n x] entry_bytes_def
    using start x
    by (cases x) (auto split: nat.splits sum.splits option.splits node.splits prod.splits)
qed

lemma sum_list_counted_concat:
  "sum_list (map h (concat (map g es))) = sum_list (map (\<lambda>e. sum_list (map h (g e))) es)"
  by (induction es) auto

lemma rglob_node_sum:
  assumes "names_ok x"
      and "node_at (fs_root w) l = Some x"
      and "node_at (fs_root w) (start_of w q) = Some (Dir d)"
      and "\<And>qs. qs \<noteq> [] \<Longrightarrow>
             walk (fs_root w) True MAXSYMLINKS (start_of w q) (parts q @ qs)
               = walk (fs_root w) True k l qs"
  shows "sum_list (map (counted w) (rglob_node q x)) = dir_bytes (fs_root w) k l x"
  using assms
proof (induction x arbitrary: q l)
  case (File s)
  then show ?case by simp
next
  case (Symlink a t)
  then show ?case by simp
next
  case (Dir es)
  have each: "sum_list (map (counted w) (joinpath q n # rglob_node (joinpath q n) c))
                = entry_bytes (fs_root w) k l c + dir_bytes (fs_root w) k (l @ [n]) c"
    if mem: "(n, c) \<in> set es" for n c
  proof -
    from Dir.prems(1) have dist: "distinct (map fst es)" and nodd: "''..'' \<notin> set (map fst es)"
      and ok: "names_ok c"
      using mem by auto
    from mem nodd have n: "n \<noteq> ''..''" by force
    from dist mem have mo: "map_of es n = Some c" by simp
    with Dir.prems(2) have at: "node_at (fs_root w) (l @ [n]) = Some c"
      by (simp add: node_at_append)
    have e: "counted w (joinpath q n) = entry_bytes (fs_root w) k l c"
      using Dir.prems(3) Dir.prems(4) n at by (rule counted_entry)
    have r: "sum_list (map (counted w) (rglob_node (joinpath q n) c))
               = dir_bytes (fs_root w) k (l @ [n]) c"
    proof (cases c)
      case (File s)
      then show ?thesis by simp
    next
      case (Symlink a t)
      then show ?thesis by simp
    next
      case inner: (Dir es')
      have st: "node_at (fs_root w) (start_of w (joinpath q n)) = Some (Dir d)"
        using Dir.prems(3) by (simp add: start_of_def joinpath_def)
      have R': "walk (fs_root w) True MAXSYMLINKS (start_of w (joinpath q n))
                  (parts (joinpath q n) @ qs) = walk (fs_root w) True k (l @ [n]) qs"
        if "qs \<noteq> []" for qs
      proof -
        have "walk (fs_root w) True MAXSYMLINKS (start_of w q) (parts q @ (n # qs))
                = walk (fs_root w) True k l (n # qs)"
          by (rule Dir.prems(4)) simp
        also have "\<dots> = walk (fs_root w) True k (l @ [n]) qs"
          using n at inner by (simp add: walk_into_dir)
        finally show ?thesis by (simp add: start_of_def joinpath_def)
      qed
      have "c \<in> Basic_BNFs.snds (n, c)" by simp
      from Dir.IH[OF mem this ok at st R'] show ?thesis by simp
    qed
    show ?thesis using e r by simp
  qed
  have "sum_list (map (counted w) (rglob_node q (Dir es)))
          = sum_list (map (\<lambda>e. sum_list (map (counted w)
               (case e of (n, c) \<Rightarrow> joinpath q n # rglob_node (joinpath q n) c))) es)"
    by (simp add: sum_list_counted_concat)
  also have "\<dots> = sum_list (map (\<lambda>(n, c). entry_bytes (fs_root w) k l c
                        + dir_bytes (fs_root w) k (l @ [n]) c) es)"
    by (rule arg_cong[where f = sum_list], rule map_cong) (use each in auto)
  finally show ?case by simp
qed

lemma total_size_dir:
  assumes st: "node_at (fs_root w) (start_of w p) = Some (Dir d)"
      and wk: "walk (fs_root w) True MAXSYMLINKS (start_of w p) (parts p) = Inr (loc, k)"
      and at: "node_at (fs_root w) loc = Some (Dir es)"
      and ok: "names_ok (Dir es)"
  shows "total_size w p = dir_bytes (fs_root w) k loc (Dir es)"
proof -
  have "stat_node w True p = Inr (Dir es)"
    using st wk at by (simp add: stat_node_def resolve_def)
  then have rg: "rglob w p = rglob_node p (Dir es)" by (simp add: rglob_def)
  have R: "walk (fs_root w) True MAXSYMLINKS (start_of w p) (parts p @ qs)
             = walk (fs_root w) True k loc qs" if "qs \<noteq> []" for qs
    using wk at that by (rule walk_append)
  show ?thesis
    unfolding total_size_counted rg using ok at st R by (rule rglob_node_sum)
qed

lemma total_size_followed:
  assumes "names_ok (fs_root w)"
  shows "total_size w p = followed_bytes w p"
proof (cases "stat_node w True p")
  case (Inl e)
  then have "rglob w p = []" by (simp add: rglob_def)
  moreover from Inl have "followed_bytes w p = 0"
    by (auto simp: followed_bytes_def stat_node_def resolve_def
             split: option.splits node.splits sum.splits prod.splits)
  ultimately show ?thesis by (simp add: total_size_def)
next
  case (Inr x)
  then obtain d loc k where st: "node_at (fs_root w) (start_of w p) = Some (Dir d)"
      and wk: "walk (fs_root w) True MAXSYMLINKS (start_of w p) (parts p) = Inr (loc, k)"
      and at: "node_at (fs_root w) loc = Some x"
    by (auto simp: stat_node_def resolve_def
             split: option.splits node.splits sum.splits prod.splits)
  show ?thesis
  proof (cases x)
    case (Dir es)
    from assms at have "names_ok x" by (rule names_ok_node_at)
    with Dir st wk at show ?thesis
      by (simp add: total_size_dir followed_bytes_def)
  next
    case (File s)
    with Inr have "rglob w p = []" by (simp add: rglob_def)
    with File st wk at show ?thesis by (simp add: total_size_def followed_bytes_def)
  next
    case (Symlink a t)
    with Inr have "rglob w p = []" by (simp add: rglob_def)
    with Symlink st wk at show ?thesis by (simp add: total_size_def followed_bytes_def)
  qed
qed

lemma bytes_link_free:
  "link_free x \<Longrightarrow> entry_bytes r k l x + dir_bytes r k l' x = regular_file_bytes x"
proof (induction x arbitrary: l l')
  case (File s)
  then show ?case by (simp add: entry_bytes_def)
next
  case (Symlink a t)
  then show ?case by simp
next
  case (Dir es)
  have "entry_bytes r k l' c + dir_bytes r k (l' @ [n]) c = regular_file_bytes c"
    if "(n, c) \<in> set es" for n c
  proof -
    have "c \<in> Basic_BNFs.snds (n, c)" by simp
    moreover from Dir.prems that have "link_free c" by auto
    ultimately show ?thesis using Dir.IH that by blast
  qed
  then have M: "map (\<lambda>(n, x). entry_bytes r k l' x + dir_bytes r k (l' @ [n]) x) es
               = map (\<lambda>(n, x). regular_file_bytes x) es"
    by (intro map_cong) auto
  have S: "dir_bytes r k l' (Dir es) = regular_file_bytes (Dir es)"
    by (simp only: dir_bytes.simps regular_file_bytes.simps M)
  have "entry_bytes r k l (Dir es) = 0" by (simp add: entry_bytes_def)
  with S show ?case by (simp only: add_0)
qed

lemma followed_bytes_link_free:
  assumes "node_at (fs_root w) (start_of w p) = Some (Dir d)"
      and "walk (fs_root w) True MAXSYMLINKS (start_of w p) (parts p) = Inr (loc, k)"
      and "node_at (fs_root w) loc = Some (Dir es)"
      and "link_free (Dir es)"
  shows "followed_bytes w p = regular_file_bytes (Dir es)"
proof -
  have "entry_bytes (fs_root w) k loc (Dir es) = 0" by (simp add: entry_bytes_def)
  with bytes_link_free[OF assms(4), of "fs_root w" k loc loc]
  have "dir_bytes (fs_root w) k loc (Dir es) = regular_file_bytes (Dir es)" by simp
  with assms(1-3) show ?thesis by (simp add: followed_bytes_def)
qed

subsection \<open>The run over an export that holds a symbolic link\<close>

lemma stub_export_link:
  "model_export (stub (link_tree s)) ''yolo26s.pt'' ''tfjs'' w
     = (Inr ''yolo26s_web_model'', exported_link s w)"
  by (simp add: stub_def exported_link_def stub_export_loc_def)

lemma format_mb_2mib: "format_mb 2097152 = ''2.0''"
  by (simp add: format_mb_def mb_tenths_def)

lemma names_ok_final_link: "names_ok (fs_root (final_link s))"
  by (simp add: final_link_def link_tree_def)

lemma followed_final_link: "followed_bytes (final_link s) out_model = 2 * s"
  by (simp add: followed_bytes_def final_link_def link_tree_def out_model_def Path_def
        start_of_def MAXSYMLINKS_def entry_bytes_def)

lemma total_final_link: "total_size (final_link s) out_model = 2 * s"
  using total_size_followed[OF names_ok_final_link, of s out_model] followed_final_link by simp

lemma run_link_world:
  "export_model (stub (link_tree s)) ''yolo26s'' out_model empty_world =
     \<lparr>outcome = Inr None, final = final_link s,
      trace = [Print ''Loading yolo26s...'', CallYOLO ''yolo26s.pt'',
               Print ''Exporting to TensorFlow.js format...'', CallExport ''tfjs'',
               CallMkdir (parent out_model),
               CallMove (Path ''yolo26s_web_model'') out_model,
               Print ''Model exported to out/model'',
               Print (''Total size: '' @ format_mb (2 * s) @ '' MB'')]\<rparr>"
proof -
  have s1: "YOLO (stub (link_tree s)) (''yolo26s'' @ ''.pt'') empty_world
              = (Inr ''yolo26s.pt'', empty_world)"
    by (simp add: stub_load)
  have ex: "\<not> path_exists (exported_link s empty_world) out_model" by code_simp
  then have s3: "(if path_exists (exported_link s empty_world) out_model
             then rmtree (exported_link s empty_world) out_model
             else (Inr (), exported_link s empty_world)) = (Inr (), exported_link s empty_world)"
    by simp
  have s4: "mkdir (exported_link s empty_world) (parent out_model) = (Inr (), made_link s)"
    by code_simp
  have "move (stub (link_tree s)) (made_link s) (Path ''yolo26s_web_model'') out_model
          = (Inr (), final_link s)"
    by code_simp
  then have s5: "move (stub (link_tree s)) (made_link s) (Path (''yolo26s'' @ ''_web_model'')) out_model
                   = (Inr (), final_link s)"
    by simp
  show ?thesis
    by (simp add: run_succeeds[OF s1 stub_export_link s3 s4 s5] t_defs ex
          total_final_link str_out_model)
qed

subsection \<open>Claims about the reported size\<close>

text \<open>
  Against C1 as stated: the export holds a one-MiB regular file and a symbolic link to
  it. After the successful run the destination holds exactly that tree, whose regular
  files sum to 1048576 bytes; the run's total is 2097152 and it prints \<^verbatim>\<open>2.0 MB\<close>.
\<close>

theorem size_excludes_links_counterexample:
  "outcome (export_model (stub (link_tree 1048576)) ''yolo26s'' out_model empty_world) = Inr None
   \<and> node_at (fs_root (final (export_model (stub (link_tree 1048576)) ''yolo26s'' out_model empty_world)))
        [''work'', ''out'', ''model''] = Some (link_tree 1048576)
   \<and> regular_file_bytes (link_tree 1048576) = 1048576
   \<and> total_size (final (export_model (stub (link_tree 1048576)) ''yolo26s'' out_model empty_world)) out_model
        = 2097152
   \<and> last (trace (export_model (stub (link_tree 1048576)) ''yolo26s'' out_model empty_world))
        = Print ''Total size: 2.0 MB''"
proof -
  have "node_at (fs_root (final_link 1048576)) [''work'', ''out'', ''model''] = Some (link_tree 1048576)"
    by (simp add: final_link_def)
  moreover have "regular_file_bytes (link_tree 1048576) = 1048576"
    by (simp add: link_tree_def)
  ultimately show ?thesis
    by (simp add: run_link_world total_final_link format_mb_2mib)
qed

text \<open>
  C1, amended. After a successful run the reported total is the sum, over every entry
  under the destination that is reached without entering a linked directory, of the
  size of each regular file and, for each symbolic link that leads to a regular file,
  of that file's size; directories, and links that lead elsewhere or nowhere, add
  nothing. (For a destination without symbolic links that is the sum of its regular
  files: \<open>followed_bytes_link_free\<close>.) If that sum is below \<open>2^53\<close> bytes, where the
  conversion to MB is exact, the last line printed is that sum in MB with one decimal.
\<close>

theorem reported_size_follows_links:
  assumes "outcome (export_model ext name out w) = Inr v"
      and "names_ok (fs_root (final (export_model ext name out w)))"
  shows "total_size (final (export_model ext name out w)) out
           = followed_bytes (final (export_model ext name out w)) out
         \<and> (float_exact (followed_bytes (final (export_model ext name out w)) out) \<longrightarrow>
            last (trace (export_model ext name out w))
              = Print (''Total size: ''
                       @ format_mb (followed_bytes (final (export_model ext name out w)) out)
                       @ '' MB''))"
proof (intro conjI impI)
  show t: "total_size (final (export_model ext name out w)) out
           = followed_bytes (final (export_model ext name out w)) out"
    using assms(2) by (rule total_size_followed)
  from assms(1) show "last (trace (export_model ext name out w))
           = Print (''Total size: ''
                    @ format_mb (followed_bytes (final (export_model ext name out w)) out)
                    @ '' MB'')"
  proof (cases rule: run_cases[where ext=ext and name=name and ?w0.0=w and out=out])
    case (succeeds m w1 x w2 w3 w4 w5)
    with t show ?thesis by (simp add: run_succeeds)
  qed (simp_all add: run_load_fails run_export_fails run_rmtree_fails run_mkdir_fails run_move_fails)
qed

text \<open>An instance: the export with the link; both the file and the link are counted.\<close>

theorem reported_size_follows_links_witness:
  "outcome (export_model (stub (link_tree 1048576)) ''yolo26s'' out_model empty_world) = Inr None
   \<and> names_ok (fs_root (final (export_model (stub (link_tree 1048576)) ''yolo26s'' out_model empty_world)))
   \<and> followed_bytes (final (export_model (stub (link_tree 1048576)) ''yolo26s'' out_model empty_world)) out_model
        = 2097152
   \<and> float_exact (followed_bytes (final (export_model (stub (link_tree 1048576)) ''yolo26s'' out_model empty_world)) out_model)
   \<and> last (trace (export_model (stub (link_tree 1048576)) ''yolo26s'' out_model empty_world))
        = Print ''Total size: 2.0 MB''"
proof -
  have h1: "outcome (export_model (stub (link_tree 1048576)) ''yolo26s'' out_model empty_world) = Inr None"
    by (simp add: run_link_world)
  have h2: "names_ok (fs_root (final (export_model (stub (link_tree 1048576)) ''yolo26s'' out_model empty_world)))"
    by (simp add: run_link_world names_ok_final_link)
  have fb: "followed_bytes (final (export_model (stub (link_tree 1048576)) ''yolo26s'' out_model empty_world)) out_model
          = 2097152"
    by (simp add: run_link_world followed_final_link)
  have h3: "float_exact (followed_bytes (final (export_model (stub (link_tree 1048576)) ''yolo26s'' out_model empty_world)) out_model)"
    by (simp add: fb float_exact_def)
  from reported_size_follows_links[OF h1 h2] h3
  have "last (trace (export_model (stub (link_tree 1048576)) ''yolo26s'' out_model empty_world))
          = Print (''Total size: ''
                   @ format_mb (followed_bytes (final (export_model (stub (link_tree 1048576)) ''yolo26s'' out_model empty_world)) out_model)
                   @ '' MB'')"
    by blast
  then show ?thesis using h1 h2 h3 fb by (simp add: format_mb_2mib)
qed

subsection \<open>Resolution passes through directories only\<close>




lemma start_of_parent: "start_of w (parent p) = start_of w p"
  by (simp add: start_of_def parent_def)

lemma parts_parent: "parts (parent p) = butlast (parts p)"
  by (simp add: parent_def)



subsection \<open>A run whose parent creation fails\<close>

lemma run_file_parent_world:
  "export_model (stub tree150) ''yolo26s'' out_model file_parent_world =
     \<lparr>outcome = Inl (OSError EEXIST), final = exported_150 file_parent_world,
      trace = [Print ''Loading yolo26s...'', CallYOLO ''yolo26s.pt'',
               Print ''Exporting to TensorFlow.js format...'', CallExport ''tfjs'',
               CallMkdir (parent out_model)]\<rparr>"
proof -
  have s1: "YOLO (stub tree150) (''yolo26s'' @ ''.pt'') file_parent_world
              = (Inr ''yolo26s.pt'', file_parent_world)"
    by (simp add: stub_load)
  have ex: "\<not> path_exists (exported_150 file_parent_world) out_model" by code_simp
  then have s3: "(if path_exists (exported_150 file_parent_world) out_model
             then rmtree (exported_150 file_parent_world) out_model
             else (Inr (), exported_150 file_parent_world)) = (Inr (), exported_150 file_parent_world)"
    by simp
  have s4: "mkdir (exported_150 file_parent_world) (parent out_model)
              = (Inl (OSError EEXIST), exported_150 file_parent_world)"
    by code_simp
  show ?thesis
    by (simp add: run_mkdir_fails[OF s1 stub_export_yolo26s s3 s4] t_defs ex)
qed

subsection \<open>Updating the tree\<close>

lemma node_at_put_at_entry:
  assumes "node_at r d = Some (Dir es)"
  shows "node_at (put_at (d @ [n]) v r) (d @ n # m)
           = (case v of None \<Rightarrow> None | Some x \<Rightarrow> node_at x m)"
  using assms
proof (induction d arbitrary: r es)
  case Nil
  then show ?case
    by (cases v) (auto simp: update_conv' delete_conv' split: option.splits)
next
  case (Cons c cs)
  then obtain es0 where r: "r = Dir es0" by (cases r) auto
  with Cons.prems obtain x where x: "map_of es0 c = Some x" and at: "node_at x cs = Some (Dir es)"
    by (auto split: option.splits)
  from Cons.IH[OF at] r x show ?case by (simp add: update_conv')
qed

lemma node_at_put_at_same:
  assumes "node_at r d = Some (Dir es)"
  shows "node_at (put_at (d @ [n]) v r) (d @ [n]) = v"
  using node_at_put_at_entry[OF assms, of n v "[]"] by (cases v) auto

lemma node_at_put_at_disjoint:
  assumes "\<not> prefix l m" "\<not> prefix m l"
  shows "node_at (put_at l v r) m = node_at r m"
  using assms
proof (induction l v r arbitrary: m rule: put_at.induct)
  case (1 v r)
  then show ?case by simp
next
  case (2 c cs v es)
  from "2.prems" obtain b bs where m: "m = b # bs" by (cases m) auto
  show ?case
  proof (cases "b = c")
    case False
    with m show ?thesis
      by (auto simp: update_conv' delete_conv' split: option.splits)
  next
    case True
    with m "2.prems" have nb: "\<not> prefix cs bs" "\<not> prefix bs cs" by auto
    then have ne: "cs \<noteq> []" by auto
    show ?thesis
    proof (cases "map_of es c")
      case None
      with m True ne show ?thesis by simp
    next
      case (Some x)
      from "2.IH"[OF ne Some nb] m True ne Some show ?thesis by (simp add: update_conv')
    qed
  qed
next
  case (3 c cs v n)
  then show ?case by (cases m) auto
next
  case (4 c cs v a t)
  then show ?case by (cases m) auto
qed

lemma node_at_put_at_above:
  assumes "strict_prefix m l"
  shows "map_option shape (node_at (put_at l v r) m) = map_option shape (node_at r m)"
  using assms
proof (induction l v r arbitrary: m rule: put_at.induct)
  case (1 v r)
  then show ?case by simp
next
  case (2 c cs v es)
  show ?case
  proof (cases m)
    case Nil
    then show ?thesis by (auto split: option.splits)
  next
    case (Cons b bs)
    with "2.prems" have b: "b = c" and sp: "strict_prefix bs cs" by auto
    then have ne: "cs \<noteq> []" by auto
    show ?thesis
    proof (cases "map_of es c")
      case None
      with Cons b ne show ?thesis by simp
    next
      case (Some x)
      from "2.IH"[OF ne Some sp] Cons b ne Some show ?thesis by (simp add: update_conv')
    qed
  qed
next
  case (3 c cs v n)
  then show ?case by (cases m) auto
next
  case (4 c cs v a t)
  then show ?case by (cases m) auto
qed

lemma node_at_app:
  "node_at r (f @ m) = (case node_at r f of None \<Rightarrow> None | Some x \<Rightarrow> node_at x m)"
  by (induction r f rule: node_at.induct) (auto split: option.splits)

lemma extension_refl: "extension r r"
  by (simp add: extension_def)

lemma extension_trans: "extension a b \<Longrightarrow> extension b c \<Longrightarrow> extension a c"
  unfolding extension_def by (metis (no_types, lifting))

lemma extension_put_fresh:
  assumes d: "node_at r d = Some (Dir es)" and fresh: "node_at r (d @ [n]) = None"
  shows "extension r (put_at (d @ [n]) (Some x) r)"
  unfolding extension_def
proof (intro allI impI)
  fix l y assume y: "node_at r l = Some y"
  show "\<exists>x'. node_at (put_at (d @ [n]) (Some x) r) l = Some x' \<and> shape x' = shape y"
  proof (cases "prefix (d @ [n]) l")
    case True
    then obtain m where l: "l = (d @ [n]) @ m" by (auto simp: prefix_def)
    from fresh have "node_at r ((d @ [n]) @ m) = None" by (simp only: node_at_app[of r "d @ [n]" m] option.case)
    with y l show ?thesis by simp
  next
    case np: False
    show ?thesis
    proof (cases "prefix l (d @ [n])")
      case True
      with np have "strict_prefix l (d @ [n])" by (auto simp: strict_prefix_def)
      from node_at_put_at_above[OF this, of "Some x" r] y show ?thesis by auto
    next
      case False
      with np y show ?thesis by (simp add: node_at_put_at_disjoint)
    qed
  qed
qed

lemma walk_mono:
  "extension r r' \<Longrightarrow> walk r fl K cur ps = Inr res \<Longrightarrow> walk r' fl K cur ps = Inr res"
proof (induction r fl K cur ps rule: walk.induct)
  case (1 r fl k cur)
  then show ?case by simp
next
  case (2 r fl k cur c cs)
  note ext = "2.prems"(1)
  show ?case
  proof (cases "c = ''..''")
    case True
    with 2 show ?thesis by simp
  next
    case nd: False
    show ?thesis
    proof (cases "node_at r (cur @ [c])")
      case None
      with 2 nd show ?thesis by simp
    next
      case (Some x)
      with ext obtain x' where x': "node_at r' (cur @ [c]) = Some x'" and sh: "shape x' = shape x"
        by (auto simp: extension_def)
      show ?thesis
      proof (cases x)
        case (File n)
        with sh have "x' = File n" by (cases x') auto
        with 2 nd Some File x' show ?thesis by (auto split: if_splits)
      next
        case (Dir es)
        with sh obtain es' where "x' = Dir es'" by (cases x') auto
        with 2 nd Some Dir x' show ?thesis by simp
      next
        case (Symlink a t)
        with sh have xs: "x' = Symlink a t" by (cases x') auto
        show ?thesis
        proof (cases "cs = [] \<and> \<not> fl")
          case True
          with 2 nd Some Symlink x' xs show ?thesis by simp
        next
          case False
          show ?thesis
          proof (cases k)
            case 0
            with 2 nd Some Symlink False show ?thesis by simp
          next
            case (Suc k')
            from "2.prems"(2) nd Some Symlink False Suc
            have "walk r fl k' (if a then [] else cur) (t @ cs) = Inr res" by simp
            from "2.IH"(3)[OF nd Some Symlink False Suc ext this]
            show ?thesis using nd x' xs False Suc by auto
          qed
        qed
      qed
    qed
  qed
qed

subsection \<open>Creating directories\<close>

lemma extension_dir:
  assumes "extension r r'" "node_at r l = Some (Dir es)"
  shows "\<exists>es'. node_at r' l = Some (Dir es')"
proof -
  from assms have "\<exists>x'. node_at r' l = Some x' \<and> shape x' = shape (Dir es)"
    unfolding extension_def by blast
  then obtain x' where "node_at r' l = Some x'" "shape x' = Dir []" by auto
  then show ?thesis by (cases x') auto
qed

lemma is_dir_walk:
  "is_dir w p \<longleftrightarrow>
     (\<exists>d loc k es. node_at (fs_root w) (start_of w p) = Some (Dir d)
        \<and> walk (fs_root w) True MAXSYMLINKS (start_of w p) (parts p) = Inr (loc, k)
        \<and> node_at (fs_root w) loc = Some (Dir es))"
  by (auto simp: is_dir_def stat_node_def resolve_def
           split: option.splits node.splits sum.splits prod.splits)

lemma is_dir_mono:
  assumes "extension (fs_root w) (fs_root w')" "cwd w' = cwd w" "is_dir w p"
  shows "is_dir w' p"
proof -
  have so: "start_of w' p = start_of w p" using assms(2) by (simp add: start_of_def)
  from assms(3) obtain d loc k es where a: "node_at (fs_root w) (start_of w p) = Some (Dir d)"
      and b: "walk (fs_root w) True MAXSYMLINKS (start_of w p) (parts p) = Inr (loc, k)"
      and c: "node_at (fs_root w) loc = Some (Dir es)"
    by (auto simp: is_dir_walk)
  from extension_dir[OF assms(1) a] extension_dir[OF assms(1) c] walk_mono[OF assms(1) b]
  show ?thesis unfolding is_dir_walk so by blast
qed

lemma os_mkdir_ok:
  assumes "os_mkdir w p = Inr w'"
  shows "cwd w' = cwd w" and "extension (fs_root w) (fs_root w')" and "is_dir w' p"
proof -
  from assms have ne: "parts p \<noteq> []" and nl: "last (parts p) \<noteq> ''..''"
    by (auto simp: os_mkdir_def split: sum.splits if_splits)
  define n where "n = last (parts p)"
  from assms ne nl obtain d where re: "resolve_entry w p = Inr (d, n)"
      and fresh: "node_at (fs_root w) (d @ [n]) = None"
      and w': "w' = set_root w (put_at (d @ [n]) (Some (Dir [])) (fs_root w))"
    by (auto simp: os_mkdir_def resolve_entry_def n_def
             split: sum.splits if_splits prod.splits option.splits node.splits)
  from re ne nl have pd: "is_dir w (parent p)" and rd: "resolve w True (parent p) = Inr d"
    by (auto simp: resolve_entry_def is_dir_def split: sum.splits node.splits if_splits)
  from rd obtain d0 k where st: "node_at (fs_root w) (start_of w p) = Some (Dir d0)"
      and wk: "walk (fs_root w) True MAXSYMLINKS (start_of w p) (butlast (parts p)) = Inr (d, k)"
    by (auto simp: resolve_def start_of_parent parts_parent
             split: option.splits node.splits sum.splits prod.splits)
  from pd rd obtain es where dd: "node_at (fs_root w) d = Some (Dir es)"
    by (auto simp: is_dir_def stat_node_def split: sum.splits option.splits node.splits)
  show c: "cwd w' = cwd w" by (simp add: w' set_root_def)
  have r': "fs_root w' = put_at (d @ [n]) (Some (Dir [])) (fs_root w)" by (simp add: w' set_root_def)
  show ext: "extension (fs_root w) (fs_root w')"
    unfolding r' using dd fresh by (rule extension_put_fresh)
  have so: "start_of w' p = start_of w p" using c by (simp add: start_of_def)
  from extension_dir[OF ext st] obtain d0' where st': "node_at (fs_root w') (start_of w p) = Some (Dir d0')"
    by auto
  from extension_dir[OF ext dd] obtain es' where dd': "node_at (fs_root w') d = Some (Dir es')" by auto
  from walk_mono[OF ext wk]
  have wk': "walk (fs_root w') True MAXSYMLINKS (start_of w p) (butlast (parts p)) = Inr (d, k)" .
  have new: "node_at (fs_root w') (d @ [n]) = Some (Dir [])"
    unfolding r' using dd by (rule node_at_put_at_same)
  have "walk (fs_root w') True MAXSYMLINKS (start_of w p) (butlast (parts p) @ [n])
          = walk (fs_root w') True k d [n]"
    using wk' dd' by (rule walk_append) simp
  also have "\<dots> = Inr (d @ [n], k)"
    using nl new by (simp add: walk_entry n_def)
  finally have "walk (fs_root w') True MAXSYMLINKS (start_of w p) (parts p) = Inr (d @ [n], k)"
    using ne by (simp add: n_def)
  with st' new show "is_dir w' p" unfolding is_dir_walk so by blast
qed

lemma mkdir_leaf_ok:
  assumes "mkdir_leaf w p = (Inr u, w')"
  shows "cwd w' = cwd w" and "extension (fs_root w) (fs_root w')" and "is_dir w' p"
  using assms os_mkdir_ok[of w p] extension_refl
  by (auto simp: mkdir_leaf_def split: sum.splits if_splits)

lemma mkdir_ok:
  "mkdir w p = (Inr u, w') \<Longrightarrow> cwd w' = cwd w \<and> extension (fs_root w) (fs_root w') \<and> is_dir w' p"
proof (induction w p arbitrary: u w' rule: mkdir.induct)
  case (1 w p)
  show ?case
  proof (cases "os_mkdir w p")
    case (Inr w1)
    with "1.prems" have "w' = w1" by (simp add: mkdir.simps[of w p])
    with Inr os_mkdir_ok[of w p w1] show ?thesis by simp
  next
    case (Inl e1)
    show ?thesis
    proof (cases "e1 = ENOENT")
      case False
      with Inl "1.prems" show ?thesis
        by (auto simp: mkdir.simps[of w p] extension_refl split: if_splits)
    next
      case True
      show ?thesis
      proof (cases "parts p = []")
        case e: True
        with Inl True "1.prems" show ?thesis by (simp add: mkdir.simps[of w p])
      next
        case ne: False
        obtain r1 w1 where m: "mkdir w (parent p) = (r1, w1)" by (cases "mkdir w (parent p)")
        show ?thesis
        proof (cases r1)
          case l: (Inl e2)
          with Inl True ne m "1.prems" show ?thesis by (simp add: mkdir.simps[of w p])
        next
          case r: (Inr u1)
          with Inl True ne m "1.prems" have lf: "mkdir_leaf w1 p = (Inr u, w')"
            by (simp add: mkdir.simps[of w p])
          from "1.IH"[OF Inl True ne] m r
          have a: "cwd w1 = cwd w" "extension (fs_root w) (fs_root w1)" by simp_all
          from mkdir_leaf_ok[OF lf] a show ?thesis
            by (auto intro: extension_trans)
        qed
      qed
    qed
  qed
qed




subsection \<open>Plain paths\<close>

lemma link_at_iff: "link_at r l \<longleftrightarrow> (\<exists>a t. node_at r l = Some (Symlink a t))"
  by (auto simp: link_at_def split: option.splits node.splits)

lemma ball_upt_Suc: "(\<forall>i \<in> set [0..<Suc n]. P i) \<longleftrightarrow> (\<forall>i \<le> n. P i)"
proof -
  have "set [0..<Suc n] = {i. i \<le> n}" by auto
  then show ?thesis by (simp only: Ball_def mem_Collect_eq)
qed

lemma plain_alt:
  "plain r base ps \<longleftrightarrow>
     ''..'' \<notin> set ps
     \<and> (\<forall>i \<le> length ps. \<forall>a t. node_at r (base @ take i ps) \<noteq> Some (Symlink a t))"
  by (simp only: plain_def ball_upt_Suc link_at_iff) blast

lemma plain_Cons:
  assumes "plain r base (c # cs)"
  shows "plain r (base @ [c]) cs" and "c \<noteq> ''..''"
    and "\<And>a t. node_at r (base @ [c]) \<noteq> Some (Symlink a t)"
proof -
  from assms have nd: "''..'' \<notin> set (c # cs)"
    and al: "\<And>i a t. i \<le> length (c # cs) \<Longrightarrow> node_at r (base @ take i (c # cs)) \<noteq> Some (Symlink a t)"
    by (auto simp: plain_alt)
  from nd show "c \<noteq> ''..''" by auto
  show "plain r (base @ [c]) cs"
    unfolding plain_alt
  proof (intro conjI allI impI)
    from nd show "''..'' \<notin> set cs" by auto
    fix i a t assume "i \<le> length cs"
    then have "Suc i \<le> length (c # cs)" by simp
    from al[OF this, of a t] show "node_at r ((base @ [c]) @ take i cs) \<noteq> Some (Symlink a t)" by simp
  qed
  fix a t
  from al[of 1 a t] show "node_at r (base @ [c]) \<noteq> Some (Symlink a t)" by simp
qed

lemma plain_walk_some:
  "plain r base ps \<Longrightarrow> node_at r (base @ ps) = Some x \<Longrightarrow> walk r fl K base ps = Inr (base @ ps, K)"
proof (induction ps arbitrary: base)
  case Nil
  then show ?case by simp
next
  case (Cons c cs)
  note p = plain_Cons[OF Cons.prems(1)]
  from Cons.prems(2) have at: "node_at r ((base @ [c]) @ cs) = Some x" by simp
  have app: "node_at r (base @ c # cs)
               = (case node_at r (base @ [c]) of None \<Rightarrow> None | Some x \<Rightarrow> node_at x cs)"
    using node_at_app[of r "base @ [c]" cs] by simp
  with Cons.prems(2) obtain y where y: "node_at r (base @ [c]) = Some y" and ycs: "node_at y cs = Some x"
    by (cases "node_at r (base @ [c])") auto
  from Cons.IH[OF p(1) at] have ih: "walk r fl K (base @ [c]) cs = Inr (base @ c # cs, K)" by simp
  show ?case
  proof (cases y)
    case (File n)
    with ycs have "cs = []" by (cases cs) auto
    with p(2) y File show ?thesis by simp
  next
    case (Dir es)
    with p(2) y ih show ?thesis by simp
  next
    case (Symlink a t)
    with y p(3) show ?thesis by simp
  qed
qed

lemma plain_walk_inr:
  "plain r base ps \<Longrightarrow> \<exists>es. node_at r base = Some (Dir es) \<Longrightarrow> walk r fl K base ps = Inr (loc, k)
   \<Longrightarrow> loc = base @ ps \<and> k = K \<and> node_at r (base @ ps) \<noteq> None"
proof (induction ps arbitrary: base)
  case Nil
  then show ?case by auto
next
  case (Cons c cs)
  note p = plain_Cons[OF Cons.prems(1)]
  show ?case
  proof (cases "node_at r (base @ [c])")
    case None
    with Cons.prems(3) p(2) show ?thesis by simp
  next
    case (Some y)
    show ?thesis
    proof (cases y)
      case (File n)
      with Cons.prems(3) p(2) Some show ?thesis by (auto split: if_splits)
    next
      case (Dir es)
      with Cons.prems(3) p(2) Some have "walk r fl K (base @ [c]) cs = Inr (loc, k)" by simp
      from Cons.IH[OF p(1) _ this] Some Dir show ?thesis by simp
    next
      case (Symlink a t)
      with Some p(3) show ?thesis by simp
    qed
  qed
qed

lemma plain_take: "plain r base ps \<Longrightarrow> plain r base (take n ps)"
  unfolding plain_alt
proof (intro conjI allI impI)
  assume a: "''..'' \<notin> set ps \<and> (\<forall>i\<le>length ps. \<forall>a t. node_at r (base @ take i ps) \<noteq> Some (Symlink a t))"
  then show "''..'' \<notin> set (take n ps)" by (auto dest: in_set_takeD)
  fix i a' t assume "i \<le> length (take n ps)"
  then have "i \<le> length ps" "take i (take n ps) = take i ps" by (auto simp: min_absorb1)
  with a show "node_at r (base @ take i (take n ps)) \<noteq> Some (Symlink a' t)" by auto
qed

lemma plain_butlast: "plain r base ps \<Longrightarrow> plain r base (butlast ps)"
  by (simp add: butlast_conv_take plain_take)

lemma plain_shape:
  assumes "plain r base ps"
      and "\<And>i. i \<le> length ps \<Longrightarrow>
             map_option shape (node_at r' (base @ take i ps)) = map_option shape (node_at r (base @ take i ps))
             \<or> (\<forall>a t. node_at r' (base @ take i ps) \<noteq> Some (Symlink a t))"
  shows "plain r' base ps"
  unfolding plain_alt
proof (intro conjI allI impI)
  from assms(1) show "''..'' \<notin> set ps" by (simp add: plain_alt)
  fix i a t assume i: "i \<le> length ps"
  from assms(1) i have n: "node_at r (base @ take i ps) \<noteq> Some (Symlink a t)" by (simp add: plain_alt)
  show "node_at r' (base @ take i ps) \<noteq> Some (Symlink a t)"
  proof
    assume s: "node_at r' (base @ take i ps) = Some (Symlink a t)"
    with assms(2)[OF i]
    have "map_option shape (node_at r' (base @ take i ps)) = map_option shape (node_at r (base @ take i ps))"
      by blast
    with s have "map_option shape (node_at r (base @ take i ps)) = Some (Symlink a t)" by simp
    then obtain y where "node_at r (base @ take i ps) = Some y" "shape y = Symlink a t"
      by (cases "node_at r (base @ take i ps)") auto
    with n show False by (cases y) auto
  qed
qed

lemma node_at_prefix_dir:
  assumes "node_at r (a @ b) = Some x" "b \<noteq> []"
  shows "\<exists>es. node_at r a = Some (Dir es)"
proof -
  from assms(2) obtain c cs where b: "b = c # cs" by (cases b) auto
  have "node_at r (a @ b) = (case node_at r a of None \<Rightarrow> None | Some y \<Rightarrow> node_at y b)"
    by (rule node_at_app)
  with assms(1) obtain y where y: "node_at r a = Some y" and yb: "node_at y (c # cs) = Some x"
    using b by (cases "node_at r a") auto
  from yb show ?thesis using y by (cases y) auto
qed

lemma plain_stat_some:
  assumes "plain_path w p" and "\<exists>d. node_at (fs_root w) (start_of w p) = Some (Dir d)"
      and "node_at (fs_root w) (spelled w p) = Some x"
  shows "stat_node w fl p = Inr x" and "resolve w fl p = Inr (spelled w p)"
proof -
  from assms(1,3)
  have "walk (fs_root w) fl MAXSYMLINKS (start_of w p) (parts p) = Inr (spelled w p, MAXSYMLINKS)"
    unfolding plain_path_def spelled_def by (rule plain_walk_some)
  with assms(2) show r: "resolve w fl p = Inr (spelled w p)" by (auto simp: resolve_def)
  with assms(3) show "stat_node w fl p = Inr x" by (simp add: stat_node_def)
qed

lemma plain_stat_inr:
  assumes "plain_path w p" and "stat_node w fl p = Inr x"
  shows "node_at (fs_root w) (spelled w p) = Some x"
    and "\<exists>d. node_at (fs_root w) (start_of w p) = Some (Dir d)"
    and "walk (fs_root w) fl MAXSYMLINKS (start_of w p) (parts p) = Inr (spelled w p, MAXSYMLINKS)"
proof -
  from assms(2) obtain d loc k where st: "node_at (fs_root w) (start_of w p) = Some (Dir d)"
      and wk: "walk (fs_root w) fl MAXSYMLINKS (start_of w p) (parts p) = Inr (loc, k)"
      and at: "node_at (fs_root w) loc = Some x"
    by (auto simp: stat_node_def resolve_def
             split: option.splits node.splits sum.splits prod.splits)
  from st show "\<exists>d. node_at (fs_root w) (start_of w p) = Some (Dir d)" by blast
  from assms(1) st wk have l: "loc = spelled w p \<and> k = MAXSYMLINKS"
    unfolding plain_path_def spelled_def using plain_walk_inr by blast
  with at show "node_at (fs_root w) (spelled w p) = Some x" by simp
  from l wk show "walk (fs_root w) fl MAXSYMLINKS (start_of w p) (parts p) = Inr (spelled w p, MAXSYMLINKS)"
    by simp
qed

lemma plain_stat_iff:
  assumes "plain_path w p" and "\<exists>d. node_at (fs_root w) (start_of w p) = Some (Dir d)"
  shows "stat_node w fl p = Inr x \<longleftrightarrow> node_at (fs_root w) (spelled w p) = Some x"
proof
  assume "stat_node w fl p = Inr x"
  with assms(1) show "node_at (fs_root w) (spelled w p) = Some x" by (rule plain_stat_inr(1))
next
  assume "node_at (fs_root w) (spelled w p) = Some x"
  with assms show "stat_node w fl p = Inr x" by (rule plain_stat_some(1))
qed

lemma plain_not_link:
  assumes "plain_path w p"
  shows "node_at (fs_root w) (spelled w p) \<noteq> Some (Symlink a t)"
proof -
  from assms have "\<forall>i\<le>length (parts p). \<forall>a t.
      node_at (fs_root w) (start_of w p @ take i (parts p)) \<noteq> Some (Symlink a t)"
    by (simp add: plain_path_def plain_alt)
  then have "node_at (fs_root w) (start_of w p @ take (length (parts p)) (parts p)) \<noteq> Some (Symlink a t)"
    by blast
  then show ?thesis by (simp add: spelled_def)
qed

lemma plain_exists_iff:
  assumes "plain_path w p" and "\<exists>d. node_at (fs_root w) (start_of w p) = Some (Dir d)"
  shows "path_exists w p \<longleftrightarrow> node_at (fs_root w) (spelled w p) \<noteq> None"
proof (cases "stat_node w True p")
  case (Inl e)
  then have "node_at (fs_root w) (spelled w p) = None"
    using plain_stat_iff[OF assms, of True] by (cases "node_at (fs_root w) (spelled w p)") auto
  with Inl show ?thesis by (simp add: path_exists_def)
next
  case (Inr x)
  then have "node_at (fs_root w) (spelled w p) = Some x" using plain_stat_iff[OF assms] by simp
  with Inr show ?thesis by (simp add: path_exists_def)
qed

lemma plain_lexists_iff:
  assumes "plain_path w p" and "\<exists>d. node_at (fs_root w) (start_of w p) = Some (Dir d)"
  shows "lexists w p \<longleftrightarrow> node_at (fs_root w) (spelled w p) \<noteq> None"
proof (cases "stat_node w False p")
  case (Inl e)
  then have "node_at (fs_root w) (spelled w p) = None"
    using plain_stat_iff[OF assms, of False] by (cases "node_at (fs_root w) (spelled w p)") auto
  with Inl show ?thesis by (simp add: lexists_def)
next
  case (Inr x)
  then have "node_at (fs_root w) (spelled w p) = Some x" using plain_stat_iff[OF assms] by simp
  with Inr show ?thesis by (simp add: lexists_def)
qed

lemma plain_is_dir_iff:
  assumes "plain_path w p" and "\<exists>d. node_at (fs_root w) (start_of w p) = Some (Dir d)"
  shows "is_dir w p \<longleftrightarrow> (\<exists>es. node_at (fs_root w) (spelled w p) = Some (Dir es))"
proof (cases "stat_node w True p")
  case (Inl e)
  then have "node_at (fs_root w) (spelled w p) = None"
    using plain_stat_iff[OF assms, of True] by (cases "node_at (fs_root w) (spelled w p)") auto
  with Inl show ?thesis by (simp add: is_dir_def)
next
  case (Inr x)
  then have "node_at (fs_root w) (spelled w p) = Some x" using plain_stat_iff[OF assms] by simp
  with Inr show ?thesis by (cases x) (simp_all add: is_dir_def)
qed

lemma plain_not_islink:
  assumes "plain_path w p"
  shows "\<not> islink w p"
proof (cases "stat_node w False p")
  case (Inl e)
  then show ?thesis by (simp add: islink_def)
next
  case (Inr x)
  with assms have "node_at (fs_root w) (spelled w p) = Some x" by (rule plain_stat_inr(1))
  with plain_not_link[OF assms] Inr show ?thesis by (cases x) (auto simp: islink_def)
qed

lemma spelled_parent: "spelled w (parent p) = start_of w p @ butlast (parts p)"
  by (simp add: spelled_def start_of_parent parts_parent)

lemma spelled_snoc: "parts p \<noteq> [] \<Longrightarrow> spelled w p = spelled w (parent p) @ [last (parts p)]"
  unfolding spelled_parent by (simp add: spelled_def)

lemma plain_path_parent: "plain_path w p \<Longrightarrow> plain_path w (parent p)"
  by (simp add: plain_path_def start_of_parent parts_parent plain_butlast)

lemma plain_last: "plain_path w p \<Longrightarrow> parts p \<noteq> [] \<Longrightarrow> last (parts p) \<noteq> ''..''"
  by (auto simp: plain_path_def plain_alt dest: last_in_set)

lemma start_dir_of_spelled:
  assumes "node_at (fs_root w) (spelled w p) = Some (Dir es)"
  shows "\<exists>d. node_at (fs_root w) (start_of w p) = Some (Dir d)"
proof (cases "parts p = []")
  case True
  with assms show ?thesis by (simp add: spelled_def)
next
  case False
  with assms show ?thesis unfolding spelled_def by (rule node_at_prefix_dir)
qed

lemma resolve_entry_plain:
  assumes "plain_path w p" "parts p \<noteq> []"
      and "node_at (fs_root w) (spelled w (parent p)) = Some (Dir es)"
  shows "resolve_entry w p = Inr (spelled w (parent p), last (parts p))"
proof -
  have pp: "plain_path w (parent p)" using assms(1) by (rule plain_path_parent)
  from start_dir_of_spelled[OF assms(3)]
  have st: "\<exists>d. node_at (fs_root w) (start_of w (parent p)) = Some (Dir d)" .
  from plain_stat_some[OF pp st assms(3), of True] plain_last[OF assms(1,2)] assms(2)
  show ?thesis by (simp add: resolve_entry_def)
qed

lemma resolve_entry_plain_inr:
  assumes "plain_path w p" "resolve_entry w p = Inr (d, n)"
  shows "d = spelled w (parent p)" and "n = last (parts p)" and "parts p \<noteq> []"
    and "\<exists>es. node_at (fs_root w) (spelled w (parent p)) = Some (Dir es)"
proof -
  from assms(2) show ne: "parts p \<noteq> []" and n: "n = last (parts p)"
    by (auto simp: resolve_entry_def split: if_splits sum.splits node.splits)
  from assms(2) obtain es where s: "stat_node w True (parent p) = Inr (Dir es)"
      and r: "resolve w True (parent p) = Inr d"
    by (auto simp: resolve_entry_def split: if_splits sum.splits node.splits)
  have pp: "plain_path w (parent p)" using assms(1) by (rule plain_path_parent)
  from plain_stat_inr(1)[OF pp s] show "\<exists>es. node_at (fs_root w) (spelled w (parent p)) = Some (Dir es)"
    by blast
  from plain_stat_inr(2,3)[OF pp s] r show "d = spelled w (parent p)"
    by (auto simp: resolve_def split: option.splits node.splits)
qed

lemma plain_path_shape:
  assumes "plain_path w p" "cwd w' = cwd w"
      and "\<And>l. prefix l (spelled w p) \<Longrightarrow>
             map_option shape (node_at (fs_root w') l) = map_option shape (node_at (fs_root w) l)
             \<or> (\<forall>a t. node_at (fs_root w') l \<noteq> Some (Symlink a t))"
  shows "plain_path w' p"
proof -
  have so: "start_of w' p = start_of w p" using assms(2) by (simp add: start_of_def)
  show ?thesis
    unfolding plain_path_def so
  proof (rule plain_shape)
    from assms(1) show "plain (fs_root w) (start_of w p) (parts p)" by (simp add: plain_path_def)
    fix i assume "i \<le> length (parts p)"
    have "prefix (start_of w p @ take i (parts p)) (spelled w p)"
      unfolding spelled_def by (simp add: take_is_prefix)
    from assms(3)[OF this]
    show "map_option shape (node_at (fs_root w') (start_of w p @ take i (parts p)))
            = map_option shape (node_at (fs_root w) (start_of w p @ take i (parts p)))
          \<or> (\<forall>a t. node_at (fs_root w') (start_of w p @ take i (parts p)) \<noteq> Some (Symlink a t))" .
  qed
qed

subsection \<open>Removing a plain destination\<close>

lemma shape_dir_iff: "map_option shape a = map_option shape b \<Longrightarrow>
    (\<exists>es. a = Some (Dir es)) \<longleftrightarrow> (\<exists>es. b = Some (Dir es))"
proof -
  assume e: "map_option shape a = map_option shape b"
  have "(\<exists>es. c = Some (Dir es)) \<longleftrightarrow> map_option shape c = Some (Dir [])" for c
  proof (cases c)
    case None then show ?thesis by simp
  next
    case (Some y) then show ?thesis by (cases y) auto
  qed
  with e show ?thesis by metis
qed

lemma rmtree_plain:
  assumes pl: "plain_path w p" and ne: "parts p \<noteq> []" and ok: "rmtree w p = (Inr u, w')"
  shows "cwd w' = cwd w"
    and "\<exists>es. node_at (fs_root w) (spelled w p) = Some (Dir es)"
    and "\<And>m. node_at (fs_root w') (spelled w p @ m) = None"
    and "\<And>l. \<not> prefix (spelled w p) l \<Longrightarrow> \<not> prefix l (spelled w p)
           \<Longrightarrow> node_at (fs_root w') l = node_at (fs_root w) l"
    and "\<And>l. strict_prefix l (spelled w p)
           \<Longrightarrow> map_option shape (node_at (fs_root w') l) = map_option shape (node_at (fs_root w) l)"
proof -
  define D where "D = spelled w p"
  define P where "P = spelled w (parent p)"
  define n where "n = last (parts p)"
  have DP: "D = P @ [n]" unfolding D_def P_def n_def using ne by (rule spelled_snoc)
  from ok obtain es where st: "stat_node w False p = Inr (Dir es)"
    by (auto simp: rmtree_def split: sum.splits node.splits)
  from plain_stat_inr[OF pl st] have at: "node_at (fs_root w) D = Some (Dir es)"
      and sd: "\<exists>d. node_at (fs_root w) (start_of w p) = Some (Dir d)"
    by (simp_all add: D_def)
  from plain_stat_some(2)[OF pl sd at[unfolded D_def], of False]
  have res: "resolve w False p = Inr D" by (simp add: D_def)
  define w1 where "w1 = set_root w (put_at D (Some (Dir [])) (fs_root w))"
  from ok st res have rd: "os_rmdir w1 p = Inr w'"
    by (auto simp: rmtree_def w1_def Let_def split: sum.splits)
  have c1: "cwd w1 = cwd w" by (simp add: w1_def set_root_def)
  have r1: "fs_root w1 = put_at D (Some (Dir [])) (fs_root w)" by (simp add: w1_def set_root_def)
  from at DP obtain ps where Pd: "node_at (fs_root w) P = Some (Dir ps)"
    using node_at_prefix_dir[of "fs_root w" P "[n]"] by auto
  have s1: "spelled w1 q = spelled w q" for q by (simp add: spelled_def start_of_def c1)
  have above1: "map_option shape (node_at (fs_root w1) l) = map_option shape (node_at (fs_root w) l)"
    if "strict_prefix l D" for l
    unfolding r1 using that by (rule node_at_put_at_above)
  have at1: "node_at (fs_root w1) D = Some (Dir [])"
    unfolding r1 DP using Pd by (rule node_at_put_at_same)
  have pl1: "plain_path w1 p"
  proof (rule plain_path_shape[OF pl c1])
    fix l assume "prefix l (spelled w p)"
    then have "l = D \<or> strict_prefix l D" by (auto simp: D_def strict_prefix_def)
    then show "map_option shape (node_at (fs_root w1) l) = map_option shape (node_at (fs_root w) l)
               \<or> (\<forall>a t. node_at (fs_root w1) l \<noteq> Some (Symlink a t))"
      using at1 above1 by auto
  qed
  have "strict_prefix P D" by (simp add: DP strict_prefix_def)
  from above1[OF this] Pd obtain ps1 where Pd1: "node_at (fs_root w1) P = Some (Dir ps1)"
    using shape_dir_iff by blast
  then have Pd1': "node_at (fs_root w1) (spelled w1 (parent p)) = Some (Dir ps1)"
    by (simp add: s1 P_def)
  from resolve_entry_plain[OF pl1 ne Pd1'] have re: "resolve_entry w1 p = Inr (P, n)"
    by (simp add: s1 P_def n_def)
  from plain_last[OF pl ne] have nl: "last (parts p) \<noteq> ''..''" .
  from rd ne nl re at1 DP have w': "w' = set_root w1 (put_at D None (fs_root w1))"
    by (auto simp: os_rmdir_def split: sum.splits if_splits)
  then have r': "fs_root w' = put_at D None (fs_root w1)" and c': "cwd w' = cwd w1"
    by (simp_all add: set_root_def)
  from c' c1 show "cwd w' = cwd w" by simp
  from at show "\<exists>es. node_at (fs_root w) (spelled w p) = Some (Dir es)" by (auto simp: D_def)
  show "node_at (fs_root w') (spelled w p @ m) = None" for m
    using node_at_put_at_entry[OF Pd1, of n None m] by (simp add: r' DP D_def[symmetric])
  show "node_at (fs_root w') l = node_at (fs_root w) l"
    if "\<not> prefix (spelled w p) l" "\<not> prefix l (spelled w p)" for l
    using that by (simp add: r' r1 D_def[symmetric] node_at_put_at_disjoint)
  show "map_option shape (node_at (fs_root w') l) = map_option shape (node_at (fs_root w) l)"
    if "strict_prefix l (spelled w p)" for l
    using that node_at_put_at_above[of l D None "fs_root w1"] above1[of l]
    by (simp add: r' D_def[symmetric])
qed

subsection \<open>Creating the parents of a plain destination\<close>

lemma node_at_none_below: "node_at r l = None \<Longrightarrow> node_at r (l @ m) = None"
  by (simp add: node_at_app)

lemma shape_is_dir: "shape y = Dir [] \<longleftrightarrow> (\<exists>es. y = Dir es)"
  by (cases y) auto

lemma frame_refl: "frame P r r"
  by (auto simp: frame_def split: option.splits)

lemma frameD1: "frame P r r' \<Longrightarrow> \<not> prefix l P \<Longrightarrow> node_at r' l = node_at r l"
  by (simp add: frame_def)

lemma frameD2:
  "frame P r r' \<Longrightarrow> prefix l P \<Longrightarrow> node_at r l = Some x
   \<Longrightarrow> \<exists>x'. node_at r' l = Some x' \<and> shape x' = shape x"
  by (auto simp: frame_def split: option.splits)

lemma frameD3:
  "frame P r r' \<Longrightarrow> prefix l P \<Longrightarrow> node_at r l = None
   \<Longrightarrow> node_at r' l = None \<or> (\<exists>es. node_at r' l = Some (Dir es))"
  by (auto simp: frame_def split: option.splits)

lemma frameI:
  assumes "\<And>l. \<not> prefix l P \<Longrightarrow> node_at r' l = node_at r l"
      and "\<And>l x. prefix l P \<Longrightarrow> node_at r l = Some x
             \<Longrightarrow> \<exists>x'. node_at r' l = Some x' \<and> shape x' = shape x"
      and "\<And>l. prefix l P \<Longrightarrow> node_at r l = None
             \<Longrightarrow> node_at r' l = None \<or> (\<exists>es. node_at r' l = Some (Dir es))"
  shows "frame P r r'"
  unfolding frame_def
proof (intro conjI allI impI)
  fix l assume "\<not> prefix l P"
  then show "node_at r' l = node_at r l" by (rule assms(1))
next
  fix l assume p: "prefix l P"
  show "case node_at r l of
          Some x \<Rightarrow> map_option shape (node_at r' l) = Some (shape x)
        | None \<Rightarrow> node_at r' l = None \<or> (\<exists>es. node_at r' l = Some (Dir es))"
  proof (cases "node_at r l")
    case None
    with assms(3)[OF p] show ?thesis by simp
  next
    case (Some x)
    with assms(2)[OF p] show ?thesis by auto
  qed
qed

lemma frame_trans:
  assumes "frame P a b" "frame P b c"
  shows "frame P a c"
proof (rule frameI)
  fix l assume "\<not> prefix l P"
  then show "node_at c l = node_at a l"
    using frameD1[OF assms(1)] frameD1[OF assms(2)] by simp
next
  fix l x assume p: "prefix l P" and s: "node_at a l = Some x"
  from frameD2[OF assms(1) p s] obtain x' where x': "node_at b l = Some x'" "shape x' = shape x"
    by auto
  from frameD2[OF assms(2) p x'(1)] x'(2)
  show "\<exists>x'. node_at c l = Some x' \<and> shape x' = shape x" by auto
next
  fix l assume p: "prefix l P" and s: "node_at a l = None"
  from frameD3[OF assms(1) p s]
  show "node_at c l = None \<or> (\<exists>es. node_at c l = Some (Dir es))"
  proof
    assume "node_at b l = None"
    from frameD3[OF assms(2) p this] show ?thesis .
  next
    assume "\<exists>es. node_at b l = Some (Dir es)"
    then obtain es where "node_at b l = Some (Dir es)" by auto
    from frameD2[OF assms(2) p this] show ?thesis by (auto simp: shape_is_dir)
  qed
qed

lemma frame_weaken:
  assumes "prefix P P'" "frame P r r'"
  shows "frame P' r r'"
proof (rule frameI)
  fix l assume "\<not> prefix l P'"
  with assms(1) have "\<not> prefix l P" by (auto dest: prefix_order.trans)
  then show "node_at r' l = node_at r l" by (rule frameD1[OF assms(2)])
next
  fix l x assume p: "prefix l P'" and s: "node_at r l = Some x"
  show "\<exists>x'. node_at r' l = Some x' \<and> shape x' = shape x"
  proof (cases "prefix l P")
    case True
    from frameD2[OF assms(2) True s] show ?thesis .
  next
    case False
    from frameD1[OF assms(2) False] s show ?thesis by simp
  qed
next
  fix l assume p: "prefix l P'" and s: "node_at r l = None"
  show "node_at r' l = None \<or> (\<exists>es. node_at r' l = Some (Dir es))"
  proof (cases "prefix l P")
    case True
    from frameD3[OF assms(2) True s] show ?thesis .
  next
    case False
    from frameD1[OF assms(2) False] s show ?thesis by simp
  qed
qed

lemma frame_put_fresh:
  assumes d: "node_at r d = Some (Dir es)" and fresh: "node_at r (d @ [n]) = None"
  shows "frame (d @ [n]) r (put_at (d @ [n]) (Some (Dir [])) r)"
proof (rule frameI)
  fix l assume np: "\<not> prefix l (d @ [n])"
  show "node_at (put_at (d @ [n]) (Some (Dir [])) r) l = node_at r l"
  proof (cases "prefix (d @ [n]) l")
    case False
    with np show ?thesis by (simp add: node_at_put_at_disjoint)
  next
    case True
    then obtain m where l: "l = d @ n # m" by (auto simp: prefix_def)
    with np have "m \<noteq> []" by auto
    then obtain c cs where m: "m = c # cs" by (cases m) auto
    have "node_at (put_at (d @ [n]) (Some (Dir [])) r) l = node_at (Dir []) m"
      unfolding l using node_at_put_at_entry[OF d, of n "Some (Dir [])" m] by simp
    also have "\<dots> = None" by (simp add: m)
    finally show ?thesis using node_at_none_below[OF fresh, of m] by (simp add: l)
  qed
next
  fix l x assume p: "prefix l (d @ [n])" and s: "node_at r l = Some x"
  with fresh have "l \<noteq> d @ [n]" by auto
  with p have "strict_prefix l (d @ [n])" by (simp add: strict_prefix_def)
  from node_at_put_at_above[OF this, of "Some (Dir [])" r] s
  show "\<exists>x'. node_at (put_at (d @ [n]) (Some (Dir [])) r) l = Some x' \<and> shape x' = shape x"
    by auto
next
  fix l assume p: "prefix l (d @ [n])" and s: "node_at r l = None"
  show "node_at (put_at (d @ [n]) (Some (Dir [])) r) l = None
        \<or> (\<exists>es. node_at (put_at (d @ [n]) (Some (Dir [])) r) l = Some (Dir es))"
  proof (cases "l = d @ [n]")
    case True
    with node_at_put_at_same[OF d, of n "Some (Dir [])"] show ?thesis by simp
  next
    case False
    with p have "strict_prefix l (d @ [n])" by (simp add: strict_prefix_def)
    from node_at_put_at_above[OF this, of "Some (Dir [])" r] s show ?thesis by simp
  qed
qed

lemma plain_path_frame:
  assumes "plain_path w p" "cwd w' = cwd w" "frame Q (fs_root w) (fs_root w')"
  shows "plain_path w' p"
proof (rule plain_path_shape[OF assms(1,2)])
  fix l assume "prefix l (spelled w p)"
  show "map_option shape (node_at (fs_root w') l) = map_option shape (node_at (fs_root w) l)
        \<or> (\<forall>a t. node_at (fs_root w') l \<noteq> Some (Symlink a t))"
  proof (cases "prefix l Q")
    case False
    from frameD1[OF assms(3) False] show ?thesis by simp
  next
    case True
    show ?thesis
    proof (cases "node_at (fs_root w) l")
      case None
      from frameD3[OF assms(3) True None] show ?thesis by auto
    next
      case (Some x)
      from frameD2[OF assms(3) True Some] Some show ?thesis by auto
    qed
  qed
qed

lemma os_mkdir_plain:
  assumes pl: "plain_path w p" and ok: "os_mkdir w p = Inr w'"
  shows "cwd w' = cwd w" and "frame (spelled w p) (fs_root w) (fs_root w')"
proof -
  from ok have ne: "parts p \<noteq> []" and nl: "last (parts p) \<noteq> ''..''"
    by (auto simp: os_mkdir_def split: sum.splits if_splits)
  from ok ne nl obtain d n where re: "resolve_entry w p = Inr (d, n)"
      and fresh: "node_at (fs_root w) (d @ [n]) = None"
      and w': "w' = set_root w (put_at (d @ [n]) (Some (Dir [])) (fs_root w))"
    by (auto simp: os_mkdir_def split: sum.splits if_splits prod.splits option.splits)
  from resolve_entry_plain_inr[OF pl re] obtain es where d: "d = spelled w (parent p)"
      and n: "n = last (parts p)" and dd: "node_at (fs_root w) d = Some (Dir es)"
    by auto
  have sp: "spelled w p = d @ [n]" using spelled_snoc[OF ne, of w] by (simp add: d n)
  show "cwd w' = cwd w" by (simp add: w' set_root_def)
  have "fs_root w' = put_at (d @ [n]) (Some (Dir [])) (fs_root w)" by (simp add: w' set_root_def)
  with frame_put_fresh[OF dd fresh] show "frame (spelled w p) (fs_root w) (fs_root w')"
    by (simp add: sp)
qed

lemma spelled_cwd: "cwd w' = cwd w \<Longrightarrow> spelled w' p = spelled w p"
  by (simp add: spelled_def start_of_def)

lemma prefix_spelled_parent: "prefix (spelled w (parent p)) (spelled w p)"
  by (simp add: spelled_def start_of_parent parts_parent prefix_def)
     (metis append_butlast_last_id append_Nil2 butlast.simps(1))

lemma mkdir_leaf_plain:
  assumes pl: "plain_path w p" and ok: "mkdir_leaf w p = (res, w')"
  shows "cwd w' = cwd w \<and> frame (spelled w p) (fs_root w) (fs_root w')"
proof (cases "os_mkdir w p")
  case (Inr w1)
  with ok have "w' = w1" by (simp add: mkdir_leaf_def)
  with os_mkdir_plain[OF pl Inr] show ?thesis by simp
next
  case (Inl e)
  with ok have "w' = w" by (auto simp: mkdir_leaf_def split: if_splits)
  then show ?thesis by (simp add: frame_refl)
qed

lemma mkdir_plain:
  "plain_path w p \<Longrightarrow> mkdir w p = (res, w')
   \<Longrightarrow> cwd w' = cwd w \<and> frame (spelled w p) (fs_root w) (fs_root w')"
proof (induction w p arbitrary: res w' rule: mkdir.induct)
  case (1 w p)
  note pl = "1.prems"(1) and mk = "1.prems"(2)
  show ?case
  proof (cases "os_mkdir w p")
    case (Inr w1)
    with mk have "w' = w1" by (simp add: mkdir.simps[of w p])
    with os_mkdir_plain[OF pl Inr] show ?thesis by simp
  next
    case (Inl e1)
    show ?thesis
    proof (cases "e1 = ENOENT")
      case False
      with Inl mk have "w' = w" by (auto simp: mkdir.simps[of w p] split: if_splits)
      then show ?thesis by (simp add: frame_refl)
    next
      case True
      show ?thesis
      proof (cases "parts p = []")
        case e: True
        with Inl True mk have "w' = w" by (simp add: mkdir.simps[of w p])
        then show ?thesis by (simp add: frame_refl)
      next
        case ne: False
        obtain r1 w1 where m: "mkdir w (parent p) = (r1, w1)" by (cases "mkdir w (parent p)")
        from "1.IH"[OF Inl True ne plain_path_parent[OF pl] m]
        have c1: "cwd w1 = cwd w"
          and f1: "frame (spelled w (parent p)) (fs_root w) (fs_root w1)" by simp_all
        from frame_weaken[OF prefix_spelled_parent f1]
        have f1': "frame (spelled w p) (fs_root w) (fs_root w1)" .
        show ?thesis
        proof (cases r1)
          case l: (Inl e2)
          with Inl True ne m mk have "w' = w1" by (simp add: mkdir.simps[of w p])
          with c1 f1' show ?thesis by simp
        next
          case r: (Inr u1)
          with Inl True ne m mk have lf: "mkdir_leaf w1 p = (res, w')"
            by (simp add: mkdir.simps[of w p])
          have pl1: "plain_path w1 p" using pl c1 f1 by (rule plain_path_frame)
          from mkdir_leaf_plain[OF pl1 lf]
          have "cwd w' = cwd w1" "frame (spelled w1 p) (fs_root w1) (fs_root w')" by simp_all
          with c1 f1' show ?thesis
            by (auto simp: spelled_cwd[OF c1] intro: frame_trans)
        qed
      qed
    qed
  qed
qed

subsection \<open>Moving a directory entry to a plain destination\<close>

lemma web_model_name: "name @ ''_web_model'' \<noteq> ''..''"
proof
  assume "name @ ''_web_model'' = ''..''"
  then have "length (name @ ''_web_model'') = length ''..''" by (rule arg_cong)
  then show False by simp
qed

lemma name_entry_missing:
  assumes "node_at (fs_root w) (cwd w @ [n]) = None"
  shows "stat_node w fl \<lparr>absolute = False, double_slash = False, parts = [n]\<rparr> = Inl ENOENT \<or> n = ''..''"
  using assms
  by (auto simp: stat_node_def resolve_def start_of_def split: option.splits node.splits sum.splits)

lemma name_entry_resolve:
  assumes "node_at (fs_root w) (cwd w) = Some (Dir es)" "n \<noteq> ''..''"
  shows "resolve_entry w \<lparr>absolute = False, double_slash = False, parts = [n]\<rparr> = Inr (cwd w, n)"
  using assms
  by (simp add: resolve_entry_def stat_node_def resolve_def start_of_def parent_def)

lemma name_entry_rename_missing:
  assumes "node_at (fs_root w) (cwd w @ [n]) = None" "n \<noteq> ''..''"
  shows "os_rename w \<lparr>absolute = False, double_slash = False, parts = [n]\<rparr> dst = Inl ENOENT"
proof (cases "\<exists>es. node_at (fs_root w) (cwd w) = Some (Dir es)")
  case True
  then obtain es where "node_at (fs_root w) (cwd w) = Some (Dir es)" by auto
  from name_entry_resolve[OF this assms(2)] assms(1) show ?thesis
    by (simp add: os_rename_def)
next
  case False
  then have "resolve_entry w \<lparr>absolute = False, double_slash = False, parts = [n]\<rparr> = Inl ENOENT"
    using assms(2)
    by (auto simp: resolve_entry_def stat_node_def resolve_def start_of_def parent_def
             split: option.splits node.splits)
  then show ?thesis by (simp add: os_rename_def)
qed

lemma absent_not_is_dir:
  assumes "plain_path w p" "node_at (fs_root w) (spelled w p) = None"
  shows "\<not> is_dir w p" and "\<not> lexists w p" and "\<not> path_exists w p"
proof -
  have "stat_node w fl p \<noteq> Inr x" for fl x
    using plain_stat_inr(1)[OF assms(1), of fl x] assms(2) by auto
  then have n: "\<exists>e. stat_node w fl p = Inl e" for fl
    by (cases "stat_node w fl p") auto
  from n[of True] show "\<not> is_dir w p" by (auto simp: is_dir_def)
  from n[of False] show "\<not> lexists w p" by (auto simp: lexists_def)
  from n[of True] show "\<not> path_exists w p" by (auto simp: path_exists_def)
qed

lemma move_plain:
  assumes n: "n \<noteq> ''..''" and pl: "plain_path w out" and ne: "parts out \<noteq> []"
      and absent: "node_at (fs_root w) (spelled w out) = None"
      and pd: "node_at (fs_root w) (spelled w (parent out)) = Some (Dir es)"
      and un: "unrelated (cwd w @ [n]) (spelled w out)"
  shows "move ext w \<lparr>absolute = False, double_slash = False, parts = [n]\<rparr> out =
           (case node_at (fs_root w) (cwd w @ [n]) of
              None \<Rightarrow> (Inl (OSError ENOENT), w)
            | Some x \<Rightarrow>
                (Inr (), set_root w (put_at (spelled w out) (Some x)
                                       (put_at (cwd w @ [n]) None (fs_root w)))))"
proof -
  define E where "E = \<lparr>absolute = False, double_slash = False, parts = [n]\<rparr>"
  note nd = absent_not_is_dir(1)[OF pl absent]
  show ?thesis
  proof (cases "node_at (fs_root w) (cwd w @ [n])")
    case None
    from name_entry_missing[OF None] n have st: "stat_node w fl E = Inl ENOENT" for fl
      by (auto simp: E_def)
    have il: "\<not> islink w E" by (simp add: islink_def st)
    have id: "\<not> is_dir w E" by (simp add: is_dir_def st)
    have rn: "os_rename w E out = Inl ENOENT"
      unfolding E_def using None n by (rule name_entry_rename_missing)
    have "move ext w E out = (Inl (OSError ENOENT), w)"
      by (simp add: move_def nd rn il id)
    with None show ?thesis by (simp add: E_def)
  next
    case (Some x)
    from node_at_prefix_dir[OF Some] obtain cs where cd: "node_at (fs_root w) (cwd w) = Some (Dir cs)"
      by auto
    have re: "resolve_entry w E = Inr (cwd w, n)"
      unfolding E_def using cd n by (rule name_entry_resolve)
    have rd: "resolve_entry w out = Inr (spelled w (parent out), last (parts out))"
      using pl ne pd by (rule resolve_entry_plain)
    have D: "spelled w (parent out) @ [last (parts out)] = spelled w out"
      using spelled_snoc[OF ne, of w] by simp
    from un have neq: "cwd w @ [n] \<noteq> spelled w out" and np: "\<not> prefix (cwd w @ [n]) (spelled w out)"
      by (auto simp: unrelated_def)
    from neq D have neq': "\<not> (cwd w = spelled w (parent out) \<and> n = last (parts out))" by auto
    from np prefix_spelled_parent[of w out] have np': "\<not> prefix (cwd w @ [n]) (spelled w (parent out))"
      by (auto dest: prefix_order.trans)
    from absent D have absent': "node_at (fs_root w) (spelled w (parent out) @ [last (parts out)]) = None"
      by simp
    have "os_rename w E out
            = Inr (set_root w (put_at (spelled w (parent out) @ [last (parts out)]) (Some x)
                                 (put_at (cwd w @ [n]) None (fs_root w))))"
      by (simp add: os_rename_def re rd Some neq' np' absent' Let_def)
    then have rn: "os_rename w E out
                = Inr (set_root w (put_at (spelled w out) (Some x) (put_at (cwd w @ [n]) None (fs_root w))))"
      by (simp only: D)
    have "move ext w E out
            = (Inr (), set_root w (put_at (spelled w out) (Some x) (put_at (cwd w @ [n]) None (fs_root w))))"
      by (simp add: move_def nd rn)
    with Some show ?thesis by (simp add: E_def)
  qed
qed

subsection \<open>The three file-system steps on a plain destination\<close>

lemma plain_path_present:
  assumes nd: "''..'' \<notin> set (parts p)"
      and at: "node_at (fs_root w) (spelled w p) = Some x"
      and nl: "\<And>a t. x \<noteq> Symlink a t"
  shows "plain_path w p"
  unfolding plain_path_def plain_alt
proof (intro conjI allI impI)
  show "''..'' \<notin> set (parts p)" by (rule nd)
  fix i a t assume i: "i \<le> length (parts p)"
  show "node_at (fs_root w) (start_of w p @ take i (parts p)) \<noteq> Some (Symlink a t)"
  proof (cases "i = length (parts p)")
    case True
    with at nl show ?thesis by (auto simp: spelled_def)
  next
    case False
    with i have d: "drop i (parts p) \<noteq> []" by simp
    have "node_at (fs_root w) ((start_of w p @ take i (parts p)) @ drop i (parts p)) = Some x"
      using at by (simp add: spelled_def)
    from node_at_prefix_dir[OF this d] show ?thesis by auto
  qed
qed

lemma remove_step_plain:
  assumes pl: "plain_path w2 out" and ne: "parts out \<noteq> []"
      and st: "(if path_exists w2 out then rmtree w2 out else (Inr (), w2)) = (Inr u, w3)"
  shows "cwd w3 = cwd w2"
    and "\<And>m. node_at (fs_root w3) (spelled w2 out @ m) = None"
    and "\<And>l. unrelated (spelled w2 out) l \<Longrightarrow> node_at (fs_root w3) l = node_at (fs_root w2) l"
    and "plain_path w3 out"
proof -
  have all: "cwd w3 = cwd w2
      \<and> (\<forall>m. node_at (fs_root w3) (spelled w2 out @ m) = None)
      \<and> (\<forall>l. unrelated (spelled w2 out) l \<longrightarrow> node_at (fs_root w3) l = node_at (fs_root w2) l)
      \<and> (\<forall>l. strict_prefix l (spelled w2 out) \<longrightarrow>
            map_option shape (node_at (fs_root w3) l) = map_option shape (node_at (fs_root w2) l))"
  proof (cases "path_exists w2 out")
    case True
    with st have rm: "rmtree w2 out = (Inr u, w3)" by simp
    from rmtree_plain[OF pl ne rm] show ?thesis by (auto simp: unrelated_def)
  next
    case False
    with st have e: "w3 = w2" by simp
    have "node_at (fs_root w2) (spelled w2 out) = None"
    proof (rule ccontr)
      assume "node_at (fs_root w2) (spelled w2 out) \<noteq> None"
      then obtain y where y: "node_at (fs_root w2) (spelled w2 out) = Some y" by auto
      then have "node_at (fs_root w2) (start_of w2 out @ parts out) = Some y" by (simp add: spelled_def)
      from node_at_prefix_dir[OF this ne]
      have sd: "\<exists>d. node_at (fs_root w2) (start_of w2 out) = Some (Dir d)" .
      from plain_exists_iff[OF pl sd] y False show False by simp
    qed
    then have "node_at (fs_root w2) (spelled w2 out @ m) = None" for m
      by (rule node_at_none_below)
    with e show ?thesis by simp
  qed
  from all show c: "cwd w3 = cwd w2" by simp
  from all show a: "node_at (fs_root w3) (spelled w2 out @ m) = None" for m by simp
  from all show "node_at (fs_root w3) l = node_at (fs_root w2) l"
    if "unrelated (spelled w2 out) l" for l using that by simp
  show "plain_path w3 out"
  proof (rule plain_path_shape[OF pl c])
    fix l assume "prefix l (spelled w2 out)"
    then have "l = spelled w2 out \<or> strict_prefix l (spelled w2 out)"
      by (auto simp: strict_prefix_def)
    then show "map_option shape (node_at (fs_root w3) l) = map_option shape (node_at (fs_root w2) l)
               \<or> (\<forall>a t. node_at (fs_root w3) l \<noteq> Some (Symlink a t))"
      using a[of "[]"] all by auto
  qed
qed

lemma not_prefix_longer: "\<not> prefix (P @ n # m) P"
proof
  assume "prefix (P @ n # m) P"
  then have "length (P @ n # m) \<le> length P" by (rule prefix_length_le)
  then show False by simp
qed

lemma mkdir_step_plain:
  assumes pl: "plain_path w3 out" and ne: "parts out \<noteq> []"
      and absent: "\<And>m. node_at (fs_root w3) (spelled w3 out @ m) = None"
      and mk: "mkdir w3 (parent out) = (res, w4)"
  shows "cwd w4 = cwd w3"
    and "\<And>m. node_at (fs_root w4) (spelled w3 out @ m) = None"
    and "\<And>l. \<not> prefix l (spelled w3 out) \<Longrightarrow> node_at (fs_root w4) l = node_at (fs_root w3) l"
    and "plain_path w4 out"
    and "res = Inr u \<Longrightarrow> \<exists>es. node_at (fs_root w4) (spelled w3 (parent out)) = Some (Dir es)"
proof -
  from mkdir_plain[OF plain_path_parent[OF pl] mk]
  have c: "cwd w4 = cwd w3" and f: "frame (spelled w3 (parent out)) (fs_root w3) (fs_root w4)"
    by simp_all
  show "cwd w4 = cwd w3" by (rule c)
  have D: "spelled w3 out = spelled w3 (parent out) @ [last (parts out)]"
    using ne by (rule spelled_snoc)
  show "node_at (fs_root w4) (spelled w3 out @ m) = None" for m
  proof -
    have "\<not> prefix (spelled w3 out @ m) (spelled w3 (parent out))"
      unfolding D using not_prefix_longer[of "spelled w3 (parent out)" "last (parts out)" m] by simp
    from frameD1[OF f this] absent[of m] show ?thesis by simp
  qed
  show "node_at (fs_root w4) l = node_at (fs_root w3) l" if "\<not> prefix l (spelled w3 out)" for l
  proof -
    from that prefix_spelled_parent[of w3 out] have "\<not> prefix l (spelled w3 (parent out))"
      by (auto dest: prefix_order.trans)
    from frameD1[OF f this] show ?thesis .
  qed
  show pl4: "plain_path w4 out" using pl c f by (rule plain_path_frame)
  show "\<exists>es. node_at (fs_root w4) (spelled w3 (parent out)) = Some (Dir es)" if "res = Inr u"
  proof -
    from that mk have "mkdir w3 (parent out) = (Inr u, w4)" by simp
    from mkdir_ok[OF this] have "is_dir w4 (parent out)" by simp
    then obtain es where "stat_node w4 True (parent out) = Inr (Dir es)"
      by (auto simp: is_dir_def split: sum.splits node.splits)
    from plain_stat_inr(1)[OF plain_path_parent[OF pl4] this]
    show ?thesis by (auto simp: spelled_cwd[OF c])
  qed
qed

lemma after_exportD:
  assumes "after_export ext name w = Some w2"
  obtains m w1 x where "YOLO ext (name @ ''.pt'') w = (Inr m, w1)"
    and "model_export ext m ''tfjs'' w1 = (Inr x, w2)"
  using assms by (auto simp: after_export_def split: prod.splits sum.splits)

lemma after_export_run_cases [consumes 1, case_names rmtree_fails mkdir_fails move_fails succeeds]:
  assumes "after_export ext name w = Some w2"
  obtains
    (rmtree_fails) e w3 where
      "(if path_exists w2 out then rmtree w2 out else (Inr (), w2)) = (Inl e, w3)"
      "export_model ext name out w =
         \<lparr>outcome = Inl e, final = w3, trace = t_rmtree name out (path_exists w2 out)\<rparr>"
  | (mkdir_fails) w3 e w4 where
      "(if path_exists w2 out then rmtree w2 out else (Inr (), w2)) = (Inr (), w3)"
      "mkdir w3 (parent out) = (Inl e, w4)"
      "export_model ext name out w =
         \<lparr>outcome = Inl e, final = w4, trace = t_mkdir name out (path_exists w2 out)\<rparr>"
  | (move_fails) w3 w4 e w5 where
      "(if path_exists w2 out then rmtree w2 out else (Inr (), w2)) = (Inr (), w3)"
      "mkdir w3 (parent out) = (Inr (), w4)"
      "move ext w4 (Path (name @ ''_web_model'')) out = (Inl e, w5)"
      "export_model ext name out w =
         \<lparr>outcome = Inl e, final = w5, trace = t_move name out (path_exists w2 out)\<rparr>"
  | (succeeds) w3 w4 w5 where
      "(if path_exists w2 out then rmtree w2 out else (Inr (), w2)) = (Inr (), w3)"
      "mkdir w3 (parent out) = (Inr (), w4)"
      "move ext w4 (Path (name @ ''_web_model'')) out = (Inr (), w5)"
      "export_model ext name out w =
         \<lparr>outcome = Inr None, final = w5,
          trace = t_move name out (path_exists w2 out) @
            [Print (''Model exported to '' @ str_path out),
             Print (''Total size: '' @ format_mb (total_size w5 out) @ '' MB'')]\<rparr>"
proof -
  from assms obtain m w1 x where s1: "YOLO ext (name @ ''.pt'') w = (Inr m, w1)"
    and s2: "model_export ext m ''tfjs'' w1 = (Inr x, w2)" by (rule after_exportD)
  obtain r3 w3 where s3: "(if path_exists w2 out then rmtree w2 out else (Inr (), w2)) = (r3, w3)"
    by (cases "(if path_exists w2 out then rmtree w2 out else (Inr (), w2))")
  show thesis
  proof (cases r3)
    case (Inl e)
    with s3 have s3': "(if path_exists w2 out then rmtree w2 out else (Inr (), w2)) = (Inl e, w3)" by simp
    from rmtree_fails[OF s3' run_rmtree_fails[OF s1 s2 s3']] show thesis .
  next
    case (Inr u3)
    with s3 have s3': "(if path_exists w2 out then rmtree w2 out else (Inr (), w2)) = (Inr (), w3)" by simp
    obtain r4 w4 where s4: "mkdir w3 (parent out) = (r4, w4)" by (cases "mkdir w3 (parent out)")
    show thesis
    proof (cases r4)
      case (Inl e)
      with s4 have s4': "mkdir w3 (parent out) = (Inl e, w4)" by simp
      from mkdir_fails[OF s3' s4' run_mkdir_fails[OF s1 s2 s3' s4']] show thesis .
    next
      case (Inr u4)
      with s4 have s4': "mkdir w3 (parent out) = (Inr (), w4)" by simp
      obtain r5 w5 where s5: "move ext w4 (Path (name @ ''_web_model'')) out = (r5, w5)"
        by (cases "move ext w4 (Path (name @ ''_web_model'')) out")
      show thesis
      proof (cases r5)
        case (Inl e)
        with s5 have s5': "move ext w4 (Path (name @ ''_web_model'')) out = (Inl e, w5)" by simp
        from move_fails[OF s3' s4' s5' run_move_fails[OF s1 s2 s3' s4' s5']] show thesis .
      next
        case (Inr u5)
        with s5 have s5': "move ext w4 (Path (name @ ''_web_model'')) out = (Inr (), w5)" by simp
        from succeeds[OF s3' s4' s5' run_succeeds[OF s1 s2 s3' s4' s5']] show thesis .
      qed
    qed
  qed
qed

subsection \<open>A run to a plain destination\<close>

lemma unrelated_below:
  assumes "unrelated S D"
  shows "\<not> prefix (S @ m) D" and "unrelated D (S @ m)"
proof -
  from assms have a: "\<not> prefix S D" and b: "\<not> prefix D S" by (auto simp: unrelated_def)
  show c: "\<not> prefix (S @ m) D"
  proof
    assume "prefix (S @ m) D"
    then have "prefix S D" by (auto simp: prefix_def)
    with a show False by simp
  qed
  have "\<not> prefix D (S @ m)"
  proof
    assume "prefix D (S @ m)"
    moreover have "prefix S (S @ m)" by simp
    ultimately have "prefix D S \<or> prefix S D" by (rule prefix_same_cases)
    with a b show False by simp
  qed
  with c show "unrelated D (S @ m)" by (simp add: unrelated_def)
qed

lemma before_move_plain:
  assumes pl: "plain_path w2 out" and ne: "parts out \<noteq> []"
      and un: "unrelated (cwd w2 @ [n]) (spelled w2 out)"
      and s3: "(if path_exists w2 out then rmtree w2 out else (Inr (), w2)) = (Inr (), w3)"
      and s4: "mkdir w3 (parent out) = (res, w4)"
  shows "cwd w4 = cwd w2"
    and "plain_path w4 out"
    and "\<And>m. node_at (fs_root w4) (spelled w2 out @ m) = None"
    and "\<And>m. node_at (fs_root w4) (cwd w2 @ n # m) = node_at (fs_root w2) (cwd w2 @ n # m)"
    and "res = Inr u \<Longrightarrow> \<exists>es. node_at (fs_root w4) (spelled w2 (parent out)) = Some (Dir es)"
proof -
  note r = remove_step_plain[OF pl ne s3]
  have sp3: "spelled w3 q = spelled w2 q" for q by (rule spelled_cwd[OF r(1)])
  have a3: "node_at (fs_root w3) (spelled w3 out @ m) = None" for m using r(2)[of m] by (simp add: sp3)
  note k = mkdir_step_plain[OF r(4) ne a3 s4]
  from k(1) r(1) show "cwd w4 = cwd w2" by simp
  show "plain_path w4 out" by (rule k(4))
  show "node_at (fs_root w4) (spelled w2 out @ m) = None" for m using k(2)[of m] by (simp add: sp3)
  show "node_at (fs_root w4) (cwd w2 @ n # m) = node_at (fs_root w2) (cwd w2 @ n # m)" for m
  proof -
    from unrelated_below[OF un, of m]
    have a: "\<not> prefix ((cwd w2 @ [n]) @ m) (spelled w2 out)"
      and b: "unrelated (spelled w2 out) ((cwd w2 @ [n]) @ m)" by simp_all
    from k(3)[of "(cwd w2 @ [n]) @ m"] a
    have "node_at (fs_root w4) ((cwd w2 @ [n]) @ m) = node_at (fs_root w3) ((cwd w2 @ [n]) @ m)"
      by (simp add: sp3)
    also have "\<dots> = node_at (fs_root w2) ((cwd w2 @ [n]) @ m)" using b by (rule r(3))
    finally show ?thesis by simp
  qed
  show "\<exists>es. node_at (fs_root w4) (spelled w2 (parent out)) = Some (Dir es)" if "res = Inr u"
    using k(5)[OF that] by (simp add: sp3)
qed

lemma move_step_plain:
  assumes ns: "CHR ''/'' \<notin> set name"
      and pl: "plain_path w2 out" and ne: "parts out \<noteq> []"
      and un: "unrelated (cwd w2 @ [name @ ''_web_model'']) (spelled w2 out)"
      and s3: "(if path_exists w2 out then rmtree w2 out else (Inr (), w2)) = (Inr (), w3)"
      and s4: "mkdir w3 (parent out) = (Inr (), w4)"
  shows "move ext w4 (Path (name @ ''_web_model'')) out =
           (case node_at (fs_root w2) (cwd w2 @ [name @ ''_web_model'']) of
              None \<Rightarrow> (Inl (OSError ENOENT), w4)
            | Some x \<Rightarrow>
                (Inr (), set_root w4 (put_at (spelled w2 out) (Some x)
                                        (put_at (cwd w2 @ [name @ ''_web_model'']) None (fs_root w4)))))"
proof -
  note b = before_move_plain[OF pl ne un s3 s4]
  have sp4: "spelled w4 q = spelled w2 q" for q by (rule spelled_cwd[OF b(1)])
  from b(5)[of "()"] obtain es where pd: "node_at (fs_root w4) (spelled w4 (parent out)) = Some (Dir es)"
    by (auto simp: sp4)
  have ab: "node_at (fs_root w4) (spelled w4 out) = None" using b(3)[of "[]"] by (simp add: sp4)
  have un4: "unrelated (cwd w4 @ [name @ ''_web_model'']) (spelled w4 out)"
    using un by (simp add: sp4 b(1))
  have S: "node_at (fs_root w4) (cwd w2 @ [name @ ''_web_model''])
             = node_at (fs_root w2) (cwd w2 @ [name @ ''_web_model''])"
    using b(4)[of "[]"] by simp
  from move_plain[OF web_model_name b(2) ne ab pd un4, of ext]
  show ?thesis by (simp add: Path_web_model[OF ns] sp4 b(1) S cong: option.case_cong)
qed

lemma plain_run_moves:
  assumes ae: "after_export ext name w = Some w2"
      and ns: "CHR ''/'' \<notin> set name"
      and pl: "plain_path w2 out" and ne: "parts out \<noteq> []"
      and un: "unrelated (cwd w2 @ [name @ ''_web_model'']) (spelled w2 out)"
      and ok: "outcome (export_model ext name out w) = Inr v"
  shows "\<exists>x. node_at (fs_root w2) (cwd w2 @ [name @ ''_web_model'']) = Some x
           \<and> cwd (final (export_model ext name out w)) = cwd w2
           \<and> (\<forall>m. node_at (fs_root (final (export_model ext name out w))) (spelled w2 out @ m)
                   = node_at x m)
           \<and> node_at (fs_root (final (export_model ext name out w)))
                (cwd w2 @ [name @ ''_web_model'']) = None"
  using ae
proof (cases rule: after_export_run_cases[where out=out])
  case (rmtree_fails e w3)
  with ok show ?thesis by simp
next
  case (mkdir_fails w3 e w4)
  with ok show ?thesis by simp
next
  case (move_fails w3 w4 e w5)
  with ok show ?thesis by simp
next
  case (succeeds w3 w4 w5)
  define S where "S = cwd w2 @ [name @ ''_web_model'']"
  define D where "D = spelled w2 out"
  define P where "P = spelled w2 (parent out)"
  define n where "n = last (parts out)"
  have DP: "D = P @ [n]" unfolding D_def P_def n_def using ne by (rule spelled_snoc)
  note b = before_move_plain[OF pl ne un succeeds(1,2)]
  from move_step_plain[OF ns pl ne un succeeds(1,2), of ext] succeeds(3)
  obtain x where x: "node_at (fs_root w2) S = Some x"
    and w5: "w5 = set_root w4 (put_at D (Some x) (put_at S None (fs_root w4)))"
    by (auto simp: S_def D_def split: option.splits)
  have f: "final (export_model ext name out w) = w5" by (simp add: succeeds(4))
  have c5: "cwd w5 = cwd w2" using b(1) by (simp add: w5 set_root_def)
  have r5: "fs_root w5 = put_at D (Some x) (put_at S None (fs_root w4))" by (simp add: w5 set_root_def)
  from un have nSD: "\<not> prefix S D" and nDS: "\<not> prefix D S" by (auto simp: unrelated_def S_def D_def)
  from b(5)[of "()"] obtain es where pd: "node_at (fs_root w4) P = Some (Dir es)" by (auto simp: P_def)
  have S4: "node_at (fs_root w4) S = Some x"
    using b(4)[of "[]"] x by (simp add: S_def)
  have nSP: "\<not> prefix S P"
  proof
    assume "prefix S P"
    then have "prefix S D" by (simp add: DP)
    with nSD show False by simp
  qed
  have "\<exists>es'. node_at (put_at S None (fs_root w4)) P = Some (Dir es')"
  proof (cases "prefix P S")
    case False
    with nSP have "node_at (put_at S None (fs_root w4)) P = node_at (fs_root w4) P"
      by (simp add: node_at_put_at_disjoint)
    with pd show ?thesis by simp
  next
    case True
    with nSP have "strict_prefix P S" by (auto simp: strict_prefix_def)
    from node_at_put_at_above[OF this, of None "fs_root w4"] pd show ?thesis
      using shape_dir_iff by blast
  qed
  then obtain es' where pd': "node_at (put_at S None (fs_root w4)) P = Some (Dir es')" by auto
  have below: "node_at (fs_root w5) (D @ m) = node_at x m" for m
    using node_at_put_at_entry[OF pd', of n "Some x" m] by (simp add: r5 DP)
  from node_at_prefix_dir[of "fs_root w4" "cwd w2" "[name @ ''_web_model'']" x] S4
  obtain cs where cd: "node_at (fs_root w4) (cwd w2) = Some (Dir cs)" by (auto simp: S_def)
  have "node_at (fs_root w5) S = node_at (put_at S None (fs_root w4)) S"
    unfolding r5 using nSD nDS by (simp add: node_at_put_at_disjoint)
  also have "\<dots> = None"
    unfolding S_def using cd by (rule node_at_put_at_same)
  finally have gone: "node_at (fs_root w5) S = None" .
  from x c5 below gone show ?thesis
    unfolding f S_def[symmetric] D_def[symmetric] by blast
qed

lemma plain_run_fails:
  assumes ae: "after_export ext name w = Some w2"
      and ns: "CHR ''/'' \<notin> set name"
      and pl: "plain_path w2 out" and ne: "parts out \<noteq> []"
      and un: "unrelated (cwd w2 @ [name @ ''_web_model'']) (spelled w2 out)"
      and fl: "outcome (export_model ext name out w) = Inl e"
      and at: "last (trace (export_model ext name out w)) = CallMkdir (parent out)
               \<or> last (trace (export_model ext name out w))
                  = CallMove (Path (name @ ''_web_model'')) out"
  shows "cwd (final (export_model ext name out w)) = cwd w2"
    and "plain_path (final (export_model ext name out w)) out"
    and "node_at (fs_root (final (export_model ext name out w))) (spelled w2 out) = None"
    and "path_exists w2 out \<Longrightarrow> CallRmtree out \<in> set (trace (export_model ext name out w))"
proof -
  have "cwd (final (export_model ext name out w)) = cwd w2
      \<and> plain_path (final (export_model ext name out w)) out
      \<and> node_at (fs_root (final (export_model ext name out w))) (spelled w2 out) = None
      \<and> (path_exists w2 out \<longrightarrow> CallRmtree out \<in> set (trace (export_model ext name out w)))"
    using ae
  proof (cases rule: after_export_run_cases[where out=out])
    case (rmtree_fails e' w3)
    with at show ?thesis by (simp add: t_defs split: if_splits)
  next
    case (mkdir_fails w3 e' w4)
    note b = before_move_plain[OF pl ne un mkdir_fails(1,2)]
    from b(1,2) b(3)[of "[]"] show ?thesis by (simp add: mkdir_fails(3) t_defs)
  next
    case (move_fails w3 w4 e' w5)
    note b = before_move_plain[OF pl ne un move_fails(1,2)]
    from move_step_plain[OF ns pl ne un move_fails(1,2), of ext] move_fails(3)
    have "w5 = w4" by (auto split: option.splits)
    with b(1,2) b(3)[of "[]"] show ?thesis by (simp add: move_fails(4) t_defs)
  next
    case (succeeds w3 w4 w5)
    with fl show ?thesis by simp
  qed
  then show "cwd (final (export_model ext name out w)) = cwd w2"
    and "plain_path (final (export_model ext name out w)) out"
    and "node_at (fs_root (final (export_model ext name out w))) (spelled w2 out) = None"
    and "path_exists w2 out \<Longrightarrow> CallRmtree out \<in> set (trace (export_model ext name out w))"
    by simp_all
qed

subsection \<open>Claims about what is moved, and where it ends\<close>

lemma run_abs_world:
  "export_model (stub_beside tree150) ''/abs/yolo'' out_model abs_world =
     \<lparr>outcome = Inr None, final = abs_final,
      trace = [Print ''Loading /abs/yolo...'', CallYOLO ''/abs/yolo.pt'',
               Print ''Exporting to TensorFlow.js format...'', CallExport ''tfjs'',
               CallMkdir (parent out_model),
               CallMove (Path ''/abs/yolo_web_model'') out_model,
               Print ''Model exported to out/model'', Print ''Total size: 0.0 MB'']\<rparr>"
proof -
  have s1: "YOLO (stub_beside tree150) (''/abs/yolo'' @ ''.pt'') abs_world = (Inr ''/abs/yolo.pt'', abs_world)"
    by (simp add: stub_beside_def stub_def)
  have "set_root abs_world (put_at (spelled abs_world (Path ''/abs/yolo_web_model''))
          (Some tree150) (fs_root abs_world)) = abs_exported"
    by code_simp
  then have s2: "model_export (stub_beside tree150) ''/abs/yolo.pt'' ''tfjs'' abs_world
              = (Inr ''/abs/yolo_web_model'', abs_exported)"
    by (simp add: stub_beside_def)
  have ex: "\<not> path_exists abs_exported out_model" by code_simp
  then have s3: "(if path_exists abs_exported out_model then rmtree abs_exported out_model
             else (Inr (), abs_exported)) = (Inr (), abs_exported)"
    by simp
  have s4: "mkdir abs_exported (parent out_model) = (Inr (), abs_made)" by code_simp
  have "move (stub_beside tree150) abs_made (Path ''/abs/yolo_web_model'') out_model
          = (Inr (), abs_final)"
    by code_simp
  then have s5: "move (stub_beside tree150) abs_made (Path (''/abs/yolo'' @ ''_web_model'')) out_model
          = (Inr (), abs_final)"
    by simp
  have t: "total_size abs_final out_model = 150" by code_simp
  show ?thesis
    by (simp add: run_succeeds[OF s1 s2 s3 s4 s5] t_defs ex t format_mb_150 str_out_model)
qed

lemma after_export_abs:
  "after_export (stub_beside tree150) ''/abs/yolo'' abs_world = Some abs_exported"
proof -
  have "set_root abs_world (put_at (spelled abs_world (Path ''/abs/yolo_web_model''))
          (Some tree150) (fs_root abs_world)) = abs_exported"
    by code_simp
  then show ?thesis by (simp add: after_export_def stub_beside_def stub_def)
qed

text \<open>
  Against C8 as stated: the identifier \<^verbatim>\<open>/abs/yolo\<close> names weights outside the working
  directory. The run succeeds; the directory it moves to the destination is
  \<^verbatim>\<open>/abs/yolo_web_model\<close>, while the working directory is empty when the move is made.
\<close>

theorem moved_from_working_directory_counterexample:
  "outcome (export_model (stub_beside tree150) ''/abs/yolo'' out_model abs_world) = Inr None
   \<and> after_export (stub_beside tree150) ''/abs/yolo'' abs_world = Some abs_exported
   \<and> node_at (fs_root abs_exported) (cwd abs_exported) = Some (Dir [])
   \<and> node_at (fs_root abs_exported) [''abs'', ''yolo_web_model''] = Some tree150
   \<and> filter is_move (trace (export_model (stub_beside tree150) ''/abs/yolo'' out_model abs_world))
       = [CallMove (Path ''/abs/yolo_web_model'') out_model]
   \<and> absolute (Path ''/abs/yolo_web_model'')
   \<and> node_at (fs_root (final (export_model (stub_beside tree150) ''/abs/yolo'' out_model abs_world)))
        [''work'', ''out'', ''model''] = Some tree150
   \<and> node_at (fs_root (final (export_model (stub_beside tree150) ''/abs/yolo'' out_model abs_world)))
        [''abs'', ''yolo_web_model''] = None"
proof -
  have a: "node_at (fs_root abs_exported) (cwd abs_exported) = Some (Dir [])"
    by (simp add: abs_exported_def)
  have b: "node_at (fs_root abs_exported) [''abs'', ''yolo_web_model''] = Some tree150"
    by (simp add: abs_exported_def)
  have c: "absolute (Path ''/abs/yolo_web_model'')" by (simp add: Path_def)
  have d: "node_at (fs_root abs_final) [''work'', ''out'', ''model''] = Some tree150"
    by (simp add: abs_final_def)
  have e: "node_at (fs_root abs_final) [''abs'', ''yolo_web_model''] = None"
    by (simp add: abs_final_def)
  from a b c d e show ?thesis by (simp add: run_abs_world after_export_abs)
qed

text \<open>
  C8, amended. For an identifier without a slash and a plain destination that neither
  holds nor lies in the export: what a successful run moves is the entry named
  \<open><identifier>_web_model\<close> of the working directory, as the framework's export left
  it. That entry is then at the destination, and no longer in the working directory.
  (Whether the framework writes its export under this name is not decided here; a run
  in which it did not finds no such entry and fails in the move.)
\<close>

theorem web_model_entry_is_moved:
  assumes "after_export ext name w = Some w2"
      and "CHR ''/'' \<notin> set name"
      and "plain_path w2 out" and "parts out \<noteq> []"
      and "unrelated (cwd w2 @ [name @ ''_web_model'']) (spelled w2 out)"
      and "outcome (export_model ext name out w) = Inr v"
  shows "\<exists>x. node_at (fs_root w2) (cwd w2 @ [name @ ''_web_model'']) = Some x
           \<and> node_at (fs_root (final (export_model ext name out w))) (spelled w2 out) = Some x
           \<and> node_at (fs_root (final (export_model ext name out w)))
                (cwd w2 @ [name @ ''_web_model'']) = None"
proof -
  from plain_run_moves[OF assms] obtain x where
    x: "node_at (fs_root w2) (cwd w2 @ [name @ ''_web_model'']) = Some x"
    and b: "\<And>m. node_at (fs_root (final (export_model ext name out w))) (spelled w2 out @ m)
                 = node_at x m"
    and g: "node_at (fs_root (final (export_model ext name out w)))
              (cwd w2 @ [name @ ''_web_model'']) = None"
    by blast
  from b[of "[]"] have "node_at (fs_root (final (export_model ext name out w))) (spelled w2 out) = Some x"
    by simp
  with x g show ?thesis by blast
qed

lemma after_export_empty:
  "after_export (stub tree150) ''yolo26s'' empty_world = Some (exported_150 empty_world)"
  using stub_export_yolo26s[of empty_world] by (simp add: after_export_def stub_load)

text \<open>An instance: the spec's example run into an empty working directory.\<close>

theorem web_model_entry_is_moved_witness:
  "after_export (stub tree150) ''yolo26s'' empty_world = Some (exported_150 empty_world)
   \<and> CHR ''/'' \<notin> set ''yolo26s''
   \<and> plain_path (exported_150 empty_world) out_model \<and> parts out_model \<noteq> []
   \<and> unrelated (cwd (exported_150 empty_world) @ [''yolo26s'' @ ''_web_model''])
        (spelled (exported_150 empty_world) out_model)
   \<and> outcome (export_model (stub tree150) ''yolo26s'' out_model empty_world) = Inr None
   \<and> node_at (fs_root (exported_150 empty_world)) [''work'', ''yolo26s_web_model''] = Some tree150
   \<and> node_at (fs_root final_150) [''work'', ''out'', ''model''] = Some tree150
   \<and> node_at (fs_root final_150) [''work'', ''yolo26s_web_model''] = None"
proof -
  have h1: "after_export (stub tree150) ''yolo26s'' empty_world = Some (exported_150 empty_world)"
    by (rule after_export_empty)
  have h2: "CHR ''/'' \<notin> set ''yolo26s''" by simp
  have h3: "plain_path (exported_150 empty_world) out_model" by code_simp
  have h4: "parts out_model \<noteq> []" by code_simp
  have h5: "unrelated (cwd (exported_150 empty_world) @ [''yolo26s'' @ ''_web_model''])
              (spelled (exported_150 empty_world) out_model)"
    by code_simp
  have h6: "outcome (export_model (stub tree150) ''yolo26s'' out_model empty_world) = Inr None"
    by (simp add: run_empty_world)
  have f: "final (export_model (stub tree150) ''yolo26s'' out_model empty_world) = final_150"
    by (simp add: run_empty_world)
  have c: "cwd (exported_150 empty_world) @ [''yolo26s'' @ ''_web_model''] = [''work'', ''yolo26s_web_model'']"
    by (simp add: exported_150_def empty_world_def set_root_def)
  have s: "spelled (exported_150 empty_world) out_model = [''work'', ''out'', ''model'']"
    by code_simp
  have e: "node_at (fs_root (exported_150 empty_world)) [''work'', ''yolo26s_web_model''] = Some tree150"
    by code_simp
  from web_model_entry_is_moved[OF h1 h2 h3 h4 h5 h6]
  have "\<exists>x. node_at (fs_root (exported_150 empty_world)) [''work'', ''yolo26s_web_model''] = Some x
           \<and> node_at (fs_root final_150) [''work'', ''out'', ''model''] = Some x
           \<and> node_at (fs_root final_150) [''work'', ''yolo26s_web_model''] = None"
    unfolding f c s .
  with e have "node_at (fs_root final_150) [''work'', ''out'', ''model''] = Some tree150
           \<and> node_at (fs_root final_150) [''work'', ''yolo26s_web_model''] = None"
    by auto
  with h1 h2 h3 h4 h5 h6 e show ?thesis by blast
qed

lemma run_stale_x_world:
  "export_model (stub tree150) ''yolo26s'' out_dotdot stale_x_world =
     \<lparr>outcome = Inr None, final = final_x,
      trace = [Print ''Loading yolo26s...'', CallYOLO ''yolo26s.pt'',
               Print ''Exporting to TensorFlow.js format...'', CallExport ''tfjs'',
               CallMkdir (parent out_dotdot),
               CallMove (Path ''yolo26s_web_model'') out_dotdot,
               Print ''Model exported to x/y/..'', Print ''Total size: 0.0 MB'']\<rparr>"
proof -
  have s1: "YOLO (stub tree150) (''yolo26s'' @ ''.pt'') stale_x_world = (Inr ''yolo26s.pt'', stale_x_world)"
    by (simp add: stub_load)
  have ex: "\<not> path_exists (exported_150 stale_x_world) out_dotdot" by code_simp
  then have s3: "(if path_exists (exported_150 stale_x_world) out_dotdot
             then rmtree (exported_150 stale_x_world) out_dotdot
             else (Inr (), exported_150 stale_x_world)) = (Inr (), exported_150 stale_x_world)"
    by simp
  have s4: "mkdir (exported_150 stale_x_world) (parent out_dotdot) = (Inr (), made_x)" by code_simp
  have "move (stub tree150) made_x (Path ''yolo26s_web_model'') out_dotdot = (Inr (), final_x)"
    by code_simp
  then have s5: "move (stub tree150) made_x (Path (''yolo26s'' @ ''_web_model'')) out_dotdot
                   = (Inr (), final_x)"
    by simp
  have t: "total_size final_x out_dotdot = 157" by code_simp
  have f: "format_mb 157 = ''0.0''" by (simp add: format_mb_def mb_tenths_def)
  have p: "str_path out_dotdot = ''x/y/..''" by code_simp
  show ?thesis
    by (simp add: run_succeeds[OF s1 stub_export_yolo26s s3 s4 s5] t_defs ex t f p)
qed

text \<open>
  Against C2 as stated: the destination \<^verbatim>\<open>x/y/..\<close>, where \<^verbatim>\<open>x\<close> holds \<^verbatim>\<open>old.bin\<close> and
  \<^verbatim>\<open>x/y\<close> does not exist. The path does not resolve, so nothing is removed; the parent
  \<^verbatim>\<open>x/y\<close> is created, the destination is then the directory \<^verbatim>\<open>x\<close>, and the move puts the
  export inside it. After the successful run the destination still holds \<^verbatim>\<open>old.bin\<close>,
  which is counted in the total.
\<close>

theorem stale_file_survives_counterexample:
  "outcome (export_model (stub tree150) ''yolo26s'' out_dotdot stale_x_world) = Inr None
   \<and> node_at (fs_root stale_x_world) [''work'', ''x'', ''old.bin''] = Some (File 7)
   \<and> resolve (final (export_model (stub tree150) ''yolo26s'' out_dotdot stale_x_world)) True out_dotdot
       = Inr [''work'', ''x'']
   \<and> stat_node (final (export_model (stub tree150) ''yolo26s'' out_dotdot stale_x_world)) True
        (joinpath out_dotdot ''old.bin'') = Inr (File 7)
   \<and> joinpath out_dotdot ''old.bin''
        \<in> set (rglob (final (export_model (stub tree150) ''yolo26s'' out_dotdot stale_x_world)) out_dotdot)
   \<and> regular_file_bytes tree150 = 150
   \<and> total_size (final (export_model (stub tree150) ''yolo26s'' out_dotdot stale_x_world)) out_dotdot
       = 157"
proof -
  have a: "node_at (fs_root stale_x_world) [''work'', ''x'', ''old.bin''] = Some (File 7)"
    by (simp add: stale_x_world_def)
  have b: "resolve final_x True out_dotdot = Inr [''work'', ''x'']" by code_simp
  have c: "stat_node final_x True (joinpath out_dotdot ''old.bin'') = Inr (File 7)" by code_simp
  have d: "joinpath out_dotdot ''old.bin'' \<in> set (rglob final_x out_dotdot)" by code_simp
  have e: "regular_file_bytes tree150 = 150" by (simp add: tree150_def)
  have t: "total_size final_x out_dotdot = 157" by code_simp
  from a b c d e t show ?thesis by (simp add: run_stale_x_world)
qed

text \<open>
  C2, amended. For a destination written without \<open>..\<close> and reached through no symbolic
  link, an identifier without a slash, and an export directory that neither holds the
  destination nor lies in it: after a successful run the destination is exactly the
  directory the framework's export left under \<open><identifier>_web_model\<close> in the working
  directory, whatever the destination held before. What \<open>lstat\<close> finds there is that
  directory, every location below the destination holds what the export holds there,
  and the entries listed under the destination are those of the export.
\<close>

theorem destination_is_the_export:
  assumes "after_export ext name w = Some w2"
      and "CHR ''/'' \<notin> set name"
      and "plain_path w2 out" and "parts out \<noteq> []"
      and "unrelated (cwd w2 @ [name @ ''_web_model'']) (spelled w2 out)"
      and "outcome (export_model ext name out w) = Inr v"
      and "node_at (fs_root w2) (cwd w2 @ [name @ ''_web_model'']) = Some (Dir xs)"
  shows "stat_node (final (export_model ext name out w)) False out = Inr (Dir xs)
         \<and> (\<forall>m. node_at (fs_root (final (export_model ext name out w)))
                   (spelled (final (export_model ext name out w)) out @ m) = node_at (Dir xs) m)
         \<and> rglob (final (export_model ext name out w)) out = rglob_node out (Dir xs)"
proof -
  define w5 where "w5 = final (export_model ext name out w)"
  from plain_run_moves[OF assms(1-6)] assms(7)
  have c: "cwd w5 = cwd w2"
    and b: "\<And>m. node_at (fs_root w5) (spelled w2 out @ m) = node_at (Dir xs) m"
    unfolding w5_def by auto
  have sp: "spelled w5 q = spelled w2 q" for q by (rule spelled_cwd[OF c])
  from b[of "[]"] have at: "node_at (fs_root w5) (spelled w5 out) = Some (Dir xs)" by (simp add: sp)
  from assms(3) have nd: "''..'' \<notin> set (parts out)" by (simp add: plain_path_def plain_alt)
  have pl5: "plain_path w5 out" using nd at by (rule plain_path_present) simp
  from at have "node_at (fs_root w5) (start_of w5 out @ parts out) = Some (Dir xs)"
    by (simp add: spelled_def)
  from node_at_prefix_dir[OF this assms(4)]
  have sd: "\<exists>d. node_at (fs_root w5) (start_of w5 out) = Some (Dir d)" .
  from plain_stat_some(1)[OF pl5 sd at] have st: "stat_node w5 fl out = Inr (Dir xs)" for fl .
  from st[of True] have rg: "rglob w5 out = rglob_node out (Dir xs)" by (simp add: rglob_def)
  from st[of False] b rg show ?thesis unfolding w5_def[symmetric] by (simp add: sp)
qed

lemma after_export_stale:
  "after_export (stub tree150) ''yolo26s'' stale_world = Some (exported_150 stale_world)"
  using stub_export_yolo26s[of stale_world] by (simp add: after_export_def stub_load)

text \<open>
  An instance: the example run over a destination that holds \<^verbatim>\<open>old.bin\<close>; afterwards the
  destination is the export and \<^verbatim>\<open>old.bin\<close> is gone.
\<close>

theorem destination_is_the_export_witness:
  "after_export (stub tree150) ''yolo26s'' stale_world = Some (exported_150 stale_world)
   \<and> CHR ''/'' \<notin> set ''yolo26s''
   \<and> plain_path (exported_150 stale_world) out_model \<and> parts out_model \<noteq> []
   \<and> unrelated (cwd (exported_150 stale_world) @ [''yolo26s'' @ ''_web_model''])
        (spelled (exported_150 stale_world) out_model)
   \<and> outcome (export_model (stub tree150) ''yolo26s'' out_model stale_world) = Inr None
   \<and> node_at (fs_root (exported_150 stale_world))
        (cwd (exported_150 stale_world) @ [''yolo26s'' @ ''_web_model''])
       = Some (Dir [(''model.json'', File 100), (''group1-shard1of1.bin'', File 50)])
   \<and> node_at (fs_root stale_world) [''work'', ''out'', ''model'', ''old.bin''] = Some (File 7)
   \<and> stat_node final_150 False out_model
       = Inr (Dir [(''model.json'', File 100), (''group1-shard1of1.bin'', File 50)])
   \<and> node_at (fs_root final_150) (spelled final_150 out_model @ [''old.bin'']) = None
   \<and> rglob final_150 out_model
       = [joinpath out_model ''model.json'', joinpath out_model ''group1-shard1of1.bin'']"
proof -
  have h1: "after_export (stub tree150) ''yolo26s'' stale_world = Some (exported_150 stale_world)"
    by (rule after_export_stale)
  have h2: "CHR ''/'' \<notin> set ''yolo26s''" by simp
  have h3: "plain_path (exported_150 stale_world) out_model" by code_simp
  have h4: "parts out_model \<noteq> []" by code_simp
  have h5: "unrelated (cwd (exported_150 stale_world) @ [''yolo26s'' @ ''_web_model''])
              (spelled (exported_150 stale_world) out_model)"
    by code_simp
  have h6: "outcome (export_model (stub tree150) ''yolo26s'' out_model stale_world) = Inr None"
    by (simp add: run_stale_world)
  have h7: "node_at (fs_root (exported_150 stale_world))
              (cwd (exported_150 stale_world) @ [''yolo26s'' @ ''_web_model''])
            = Some (Dir [(''model.json'', File 100), (''group1-shard1of1.bin'', File 50)])"
    by code_simp
  have o: "node_at (fs_root stale_world) [''work'', ''out'', ''model'', ''old.bin''] = Some (File 7)"
    by (simp add: stale_world_def)
  have f: "final (export_model (stub tree150) ''yolo26s'' out_model stale_world) = final_150"
    by (simp add: run_stale_world)
  note t = destination_is_the_export[OF h1 h2 h3 h4 h5 h6 h7, unfolded f]
  from t have a: "stat_node final_150 False out_model
       = Inr (Dir [(''model.json'', File 100), (''group1-shard1of1.bin'', File 50)])"
    by blast
  from t have "node_at (fs_root final_150) (spelled final_150 out_model @ [''old.bin''])
       = node_at (Dir [(''model.json'', File 100), (''group1-shard1of1.bin'', File 50)]) [''old.bin'']"
    by blast
  then have b: "node_at (fs_root final_150) (spelled final_150 out_model @ [''old.bin'']) = None"
    by simp
  from t have "rglob final_150 out_model
       = rglob_node out_model (Dir [(''model.json'', File 100), (''group1-shard1of1.bin'', File 50)])"
    by blast
  then have c: "rglob final_150 out_model
       = [joinpath out_model ''model.json'', joinpath out_model ''group1-shard1of1.bin'']"
    by simp
  from h1 h2 h3 h4 h5 h6 h7 o a b c show ?thesis by blast
qed

subsection \<open>Claims about a failure after the removal\<close>

lemma run_silent_stale_world:
  "export_model silent_stub ''yolo26s'' out_model stale_world =
     \<lparr>outcome = Inl (OSError ENOENT), final = emptied_world,
      trace = [Print ''Loading yolo26s...'', CallYOLO ''yolo26s.pt'',
               Print ''Exporting to TensorFlow.js format...'', CallExport ''tfjs'',
               CallRmtree out_model, CallMkdir (parent out_model),
               CallMove (Path ''yolo26s_web_model'') out_model]\<rparr>"
proof -
  have s1: "YOLO silent_stub (''yolo26s'' @ ''.pt'') stale_world = (Inr ''yolo26s.pt'', stale_world)"
    by (simp add: silent_stub_def stub_def)
  have s2: "model_export silent_stub ''yolo26s.pt'' ''tfjs'' stale_world = (Inr [], stale_world)"
    by (simp add: silent_stub_def)
  have ex: "path_exists stale_world out_model" by code_simp
  have s3: "(if path_exists stale_world out_model then rmtree stale_world out_model
             else (Inr (), stale_world)) = (Inr (), emptied_world)"
    by code_simp
  have s4: "mkdir emptied_world (parent out_model) = (Inr (), emptied_world)" by code_simp
  have "move silent_stub emptied_world (Path ''yolo26s_web_model'') out_model
          = (Inl (OSError ENOENT), emptied_world)"
    by code_simp
  then have s5: "move silent_stub emptied_world (Path (''yolo26s'' @ ''_web_model'')) out_model
          = (Inl (OSError ENOENT), emptied_world)"
    by simp
  show ?thesis
    by (simp add: run_move_fails[OF s1 s2 s3 s4 s5] t_defs ex)
qed

lemma after_export_silent:
  "after_export silent_stub ''yolo26s'' stale_world = Some stale_world"
  by (simp add: after_export_def silent_stub_def stub_def)

lemma run_dd_world:
  "export_model silent_stub ''yolo26s'' out_dd dd_world =
     \<lparr>outcome = Inl (OSError ENOENT), final = dd_final,
      trace = [Print ''Loading yolo26s...'', CallYOLO ''yolo26s.pt'',
               Print ''Exporting to TensorFlow.js format...'', CallExport ''tfjs'',
               CallRmtree out_dd, CallMkdir (parent out_dd),
               CallMove (Path ''yolo26s_web_model'') out_dd]\<rparr>"
proof -
  have s1: "YOLO silent_stub (''yolo26s'' @ ''.pt'') dd_world = (Inr ''yolo26s.pt'', dd_world)"
    by (simp add: silent_stub_def stub_def)
  have s2: "model_export silent_stub ''yolo26s.pt'' ''tfjs'' dd_world = (Inr [], dd_world)"
    by (simp add: silent_stub_def)
  have ex: "path_exists dd_world out_dd" by code_simp
  have s3: "(if path_exists dd_world out_dd then rmtree dd_world out_dd
             else (Inr (), dd_world)) = (Inr (), empty_world)"
    by code_simp
  have s4: "mkdir empty_world (parent out_dd) = (Inr (), dd_final)" by code_simp
  have "move silent_stub dd_final (Path ''yolo26s_web_model'') out_dd
          = (Inl (OSError ENOENT), dd_final)"
    by code_simp
  then have s5: "move silent_stub dd_final (Path (''yolo26s'' @ ''_web_model'')) out_dd
          = (Inl (OSError ENOENT), dd_final)"
    by simp
  show ?thesis
    by (simp add: run_move_fails[OF s1 s2 s3 s4 s5] t_defs ex)
qed

text \<open>
  Against C6 as stated: the destination \<^verbatim>\<open>d/../d\<close> holds \<^verbatim>\<open>old.bin\<close> and the framework
  wrote no export. The destination is removed; creating its parent \<^verbatim>\<open>d/..\<close> creates
  \<^verbatim>\<open>d\<close> again, because the code creates the parent after the removal; the move fails.
  The run ends with the destination present, as an empty directory, not absent.
\<close>

theorem destination_recreated_empty_counterexample:
  "outcome (export_model silent_stub ''yolo26s'' out_dd dd_world) = Inl (OSError ENOENT)
   \<and> filter is_fs_call (trace (export_model silent_stub ''yolo26s'' out_dd dd_world))
       = [CallRmtree out_dd, CallMkdir (parent out_dd), CallMove (Path ''yolo26s_web_model'') out_dd]
   \<and> stat_node dd_world True (joinpath out_dd ''old.bin'') = Inr (File 7)
   \<and> path_exists (final (export_model silent_stub ''yolo26s'' out_dd dd_world)) out_dd
   \<and> stat_node (final (export_model silent_stub ''yolo26s'' out_dd dd_world)) False out_dd
       = Inr (Dir [])"
proof -
  have a: "stat_node dd_world True (joinpath out_dd ''old.bin'') = Inr (File 7)" by code_simp
  have b: "path_exists dd_final out_dd" by code_simp
  have c: "stat_node dd_final False out_dd = Inr (Dir [])" by code_simp
  from a b c show ?thesis by (simp add: run_dd_world)
qed

text \<open>
  C6, amended. For a destination written without \<open>..\<close> and reached through no symbolic
  link, an identifier without a slash, and an export location that neither holds the
  destination nor lies in it: once the remove-if-exists step is over, a run that fails
  before the move has been made, that is, in creating the destination's parent or in
  the move itself, ends with the error and leaves the destination absent (also as a
  dangling link). If the destination existed when the step was reached, the run has
  removed it by then and does not restore it: the operation is not atomic. The working
  directory is taken to exist when the export has returned.
\<close>

theorem failure_after_removal_leaves_destination_absent:
  assumes "after_export ext name w = Some w2"
      and "CHR ''/'' \<notin> set name"
      and "plain_path w2 out" and "parts out \<noteq> []"
      and "unrelated (cwd w2 @ [name @ ''_web_model'']) (spelled w2 out)"
      and "outcome (export_model ext name out w) = Inl e"
      and "last (trace (export_model ext name out w)) = CallMkdir (parent out)
           \<or> last (trace (export_model ext name out w))
              = CallMove (Path (name @ ''_web_model'')) out"
      and "is_dir w2 (Path ''.'')"
  shows "\<not> lexists (final (export_model ext name out w)) out
         \<and> \<not> path_exists (final (export_model ext name out w)) out
         \<and> (path_exists w2 out \<longrightarrow>
              CallRmtree out \<in> set (trace (export_model ext name out w))
              \<and> final (export_model ext name out w) \<noteq> w2)"
proof -
  note f = plain_run_fails[OF assms(1-7)]
  from f(3) have "node_at (fs_root (final (export_model ext name out w)))
                    (spelled (final (export_model ext name out w)) out) = None"
    by (simp add: spelled_cwd[OF f(1)])
  note a = absent_not_is_dir[OF f(2) this]
  from a(3) have "final (export_model ext name out w) \<noteq> w2" if "path_exists w2 out"
    using that by auto
  with a(2,3) f(4) show ?thesis by blast
qed

text \<open>
  Instances: the destination holds \<^verbatim>\<open>old.bin\<close> and the framework wrote no export, so
  that the destination is removed, the move fails, and the run ends without the
  destination; and the destination's parent is a regular file, so that creating the
  parent fails.
\<close>

theorem failure_after_removal_leaves_destination_absent_witness:
  "after_export silent_stub ''yolo26s'' stale_world = Some stale_world
   \<and> CHR ''/'' \<notin> set ''yolo26s''
   \<and> plain_path stale_world out_model \<and> parts out_model \<noteq> []
   \<and> unrelated (cwd stale_world @ [''yolo26s'' @ ''_web_model'']) (spelled stale_world out_model)
   \<and> outcome (export_model silent_stub ''yolo26s'' out_model stale_world) = Inl (OSError ENOENT)
   \<and> last (trace (export_model silent_stub ''yolo26s'' out_model stale_world))
       = CallMove (Path (''yolo26s'' @ ''_web_model'')) out_model
   \<and> is_dir stale_world (Path ''.'')
   \<and> path_exists stale_world out_model
   \<and> \<not> lexists (final (export_model silent_stub ''yolo26s'' out_model stale_world)) out_model
   \<and> \<not> path_exists (final (export_model silent_stub ''yolo26s'' out_model stale_world)) out_model
   \<and> CallRmtree out_model \<in> set (trace (export_model silent_stub ''yolo26s'' out_model stale_world))
   \<and> final (export_model silent_stub ''yolo26s'' out_model stale_world) \<noteq> stale_world
   \<and> after_export (stub tree150) ''yolo26s'' file_parent_world = Some (exported_150 file_parent_world)
   \<and> plain_path (exported_150 file_parent_world) out_model
   \<and> unrelated (cwd (exported_150 file_parent_world) @ [''yolo26s'' @ ''_web_model''])
        (spelled (exported_150 file_parent_world) out_model)
   \<and> outcome (export_model (stub tree150) ''yolo26s'' out_model file_parent_world) = Inl (OSError EEXIST)
   \<and> last (trace (export_model (stub tree150) ''yolo26s'' out_model file_parent_world))
       = CallMkdir (parent out_model)
   \<and> is_dir (exported_150 file_parent_world) (Path ''.'')
   \<and> \<not> lexists (final (export_model (stub tree150) ''yolo26s'' out_model file_parent_world)) out_model
   \<and> \<not> path_exists (final (export_model (stub tree150) ''yolo26s'' out_model file_parent_world)) out_model"
proof -
  have k1: "after_export (stub tree150) ''yolo26s'' file_parent_world = Some (exported_150 file_parent_world)"
    using stub_export_yolo26s[of file_parent_world] by (simp add: after_export_def stub_load)
  have k3: "plain_path (exported_150 file_parent_world) out_model" by code_simp
  have k5: "unrelated (cwd (exported_150 file_parent_world) @ [''yolo26s'' @ ''_web_model''])
              (spelled (exported_150 file_parent_world) out_model)"
    by code_simp
  have k6: "outcome (export_model (stub tree150) ''yolo26s'' out_model file_parent_world) = Inl (OSError EEXIST)"
    by (simp add: run_file_parent_world)
  have kl: "last (trace (export_model (stub tree150) ''yolo26s'' out_model file_parent_world))
              = CallMkdir (parent out_model)"
    by (simp add: run_file_parent_world)
  then have k7: "last (trace (export_model (stub tree150) ''yolo26s'' out_model file_parent_world))
                   = CallMkdir (parent out_model)
                 \<or> last (trace (export_model (stub tree150) ''yolo26s'' out_model file_parent_world))
                   = CallMove (Path (''yolo26s'' @ ''_web_model'')) out_model"
    by (rule disjI1)
  have h1: "after_export silent_stub ''yolo26s'' stale_world = Some stale_world"
    by (rule after_export_silent)
  have h2: "CHR ''/'' \<notin> set ''yolo26s''" by simp
  have h3: "plain_path stale_world out_model" by code_simp
  have h4: "parts out_model \<noteq> []" by code_simp
  have h5: "unrelated (cwd stale_world @ [''yolo26s'' @ ''_web_model'']) (spelled stale_world out_model)"
    by code_simp
  have h6: "outcome (export_model silent_stub ''yolo26s'' out_model stale_world) = Inl (OSError ENOENT)"
    by (simp add: run_silent_stale_world)
  have l: "last (trace (export_model silent_stub ''yolo26s'' out_model stale_world))
             = CallMove (Path (''yolo26s'' @ ''_web_model'')) out_model"
    by (simp add: run_silent_stale_world)
  then have h7: "last (trace (export_model silent_stub ''yolo26s'' out_model stale_world))
                   = CallMkdir (parent out_model)
                 \<or> last (trace (export_model silent_stub ''yolo26s'' out_model stale_world))
                   = CallMove (Path (''yolo26s'' @ ''_web_model'')) out_model"
    by (rule disjI2)
  have ex: "path_exists stale_world out_model" by code_simp
  have h8: "is_dir stale_world (Path ''.'')" by code_simp
  have k8: "is_dir (exported_150 file_parent_world) (Path ''.'')" by code_simp
  from failure_after_removal_leaves_destination_absent[OF h1 h2 h3 h4 h5 h6 h7 h8] ex
  have "\<not> lexists (final (export_model silent_stub ''yolo26s'' out_model stale_world)) out_model
      \<and> \<not> path_exists (final (export_model silent_stub ''yolo26s'' out_model stale_world)) out_model
      \<and> CallRmtree out_model \<in> set (trace (export_model silent_stub ''yolo26s'' out_model stale_world))
      \<and> final (export_model silent_stub ''yolo26s'' out_model stale_world) \<noteq> stale_world"
    by blast
  note first = this
  from failure_after_removal_leaves_destination_absent[OF k1 h2 k3 h4 k5 k6 k7 k8]
  have "\<not> lexists (final (export_model (stub tree150) ''yolo26s'' out_model file_parent_world)) out_model
      \<and> \<not> path_exists (final (export_model (stub tree150) ''yolo26s'' out_model file_parent_world)) out_model"
    by blast
  with first h1 h2 h3 h4 h5 h6 l ex h8 k1 k3 k5 k6 kl k8 show ?thesis by blast
qed

subsection \<open>Claims about running twice\<close>






end
